theory Spec2Isabelle
  imports Main "HOL-Library.Word"
begin

section \<open>The encrypted record layer of fizz (EncryptedRecordLayer.cpp)\<close>

text \<open>
  A shallow embedding of \<^verbatim>\<open>fizz/record/EncryptedRecordLayer.cpp\<close>: the three member
  functions \<^verbatim>\<open>EncryptedReadRecordLayer::getDecryptedBuf\<close>,
  \<^verbatim>\<open>EncryptedReadRecordLayer::read\<close> and \<^verbatim>\<open>EncryptedWriteRecordLayer::write\<close>.
  Buffers are byte lists, the mutable members of a layer are fields of a record that
  every function returns updated, the accumulator passed by reference is returned
  with what is left of it, and a C++ exception is the \<open>Inl\<close> side of the result, next
  to the state as the throw left it.
\<close>

subsection \<open>Bytes, buffers and wire constants\<close>

type_synonym byte = "8 word"
type_synonym Buf = "byte list"

text \<open>
  \<^verbatim>\<open>enum class ContentType : uint8_t\<close>. A value read off the wire is cast to the enum
  unchecked, so the type is the underlying byte and the enumerators are constants.
  Modelled from the spec: the declaration of the enum is not in the sources; the spec
  gives \<open>application_data = 23\<close> and \<open>handshake = 0x16\<close>, the two others are the
  neighbouring TLS code points.
\<close>

type_synonym ContentType = byte

definition change_cipher_spec :: ContentType where
  "change_cipher_spec = 20"

definition alert :: ContentType where
  "alert = 21"

definition handshake :: ContentType where
  "handshake = 22"

definition application_data :: ContentType where
  "application_data = 23"

text \<open>
  \<^verbatim>\<open>ProtocolVersion::tls_1_2\<close>, a 16-bit enumerator. Modelled from the spec: the
  declaration is not in the sources; the header of the spec's concrete scenario is
  \<open>[23, 0x03, 0x03, 0x00, 0x05]\<close>.
\<close>

definition tls_1_2 :: "16 word" where
  "tls_1_2 = 0x0303"

text \<open>\<^verbatim>\<open>sizeof(ContentType) + sizeof(ProtocolVersion) + sizeof(uint16_t)\<close>\<close>

definition kEncryptedHeaderSize :: nat where
  "kEncryptedHeaderSize = 1 + 2 + 2"

text \<open>\<^verbatim>\<open>Appender::writeBE\<close> of a one-byte and of a two-byte value.\<close>

definition writeBE8 :: "byte \<Rightarrow> Buf" where
  "writeBE8 b = [b]"

definition writeBE16 :: "16 word \<Rightarrow> Buf" where
  "writeBE16 w = [ucast (drop_bit 8 w), ucast w]"

text \<open>
  \<^verbatim>\<open>cursor.skip(3); cursor.readBE<uint16_t>()\<close>: the big-endian value of bytes 3 and 4.
  It is only called on a buffer of at least \<open>kEncryptedHeaderSize\<close> bytes.
\<close>

definition readLength :: "Buf \<Rightarrow> 16 word" where
  "readLength buf = word_cat (buf ! 3) (buf ! 4)"

text \<open>
  \<^verbatim>\<open>enum class EncryptionLevel\<close>. Modelled from the spec: the declaration is not in the
  sources; section 3 names the four levels (initial, early data, handshake, application).
  The layers only store and return it.
\<close>

datatype EncryptionLevel = Plaintext | Handshake | EarlyData | AppTraffic

text \<open>
  The exceptions of the three functions, all \<^verbatim>\<open>std::runtime_error\<close>, under the names of
  section 7 of the spec: \<^verbatim>\<open>"received too long encrypted record"\<close> is \<open>OversizedRecord\<close>,
  \<^verbatim>\<open>"max read seq num"\<close> and \<^verbatim>\<open>"max write seq num"\<close> are \<open>SequenceExhausted\<close>, what
  \<^verbatim>\<open>Aead::decrypt\<close> throws is \<open>AuthenticationFailed\<close>, \<^verbatim>\<open>"No content type found"\<close> is
  \<open>MalformedPadding\<close>, \<^verbatim>\<open>"received encrypted content type "\<close> with the type is
  \<open>UnexpectedContentType\<close>, and \<^verbatim>\<open>"received empty fragment"\<close> is \<open>EmptyFragment\<close>.
\<close>

datatype error =
    OversizedRecord
  | SequenceExhausted
  | AuthenticationFailed
  | MalformedPadding
  | UnexpectedContentType ContentType
  | EmptyFragment

subsection \<open>Collaborators\<close>

text \<open>
  The AEAD is an external collaborator: its operations are parameters. \<open>decrypt\<close>
  throws where it returns \<open>None\<close> here; \<open>tryDecrypt\<close> returns \<open>folly::none\<close>.
  The associated data is a nullable pointer, hence an option.
\<close>

record 'o Aead =
  encrypt :: "Buf \<Rightarrow> Buf option \<Rightarrow> 64 word \<Rightarrow> 'o \<Rightarrow> Buf"
  decrypt :: "Buf \<Rightarrow> Buf option \<Rightarrow> 64 word \<Rightarrow> 'o \<Rightarrow> Buf option"
  tryDecrypt :: "Buf \<Rightarrow> Buf option \<Rightarrow> 64 word \<Rightarrow> 'o \<Rightarrow> Buf option"
  getCipherOverhead :: nat

text \<open>
  \<^verbatim>\<open>TLSMessage\<close> and \<^verbatim>\<open>TLSContent\<close>. The fragment of a message is a
  \<^verbatim>\<open>std::unique_ptr<folly::IOBuf>\<close> that \<open>read\<close> tests for null, hence an option.
\<close>

record TLSMessage =
  type :: ContentType
  fragment :: "Buf option"

record TLSContent =
  data :: Buf
  contentType :: ContentType
  encryptionLevel :: EncryptionLevel

text \<open>
  The members that the two layers use in this file: \<^verbatim>\<open>aead_\<close>,
  \<^verbatim>\<open>useAdditionalData_\<close>, \<^verbatim>\<open>seqNum_\<close> (a \<^verbatim>\<open>uint64_t\<close>, mutable also in the \<^verbatim>\<open>const\<close>
  member \<open>write\<close>) and \<^verbatim>\<open>encryptionLevel_\<close> in both, \<^verbatim>\<open>skipFailedDecryption_\<close> in the
  reader, \<^verbatim>\<open>maxRecord_\<close> and \<^verbatim>\<open>bufAndPaddingPolicy_\<close> in the writer. The policy is an
  external collaborator, so it is a function: from the queue, the content type, the
  maximal record size and the AEAD to the buffer to encrypt and the queue it leaves.
\<close>

record 'o RecordLayer =
  aead :: "'o Aead"
  useAdditionalData :: bool
  seqNum :: "64 word"
  encryptionLevel :: EncryptionLevel

record 'o EncryptedReadRecordLayer = "'o RecordLayer" +
  skipFailedDecryption :: bool

record 'o EncryptedWriteRecordLayer = "'o RecordLayer" +
  maxRecord :: nat
  bufAndPaddingPolicy :: "Buf \<Rightarrow> ContentType \<Rightarrow> nat \<Rightarrow> 'o Aead \<Rightarrow> Buf \<times> Buf"

text \<open>
  \<^verbatim>\<open>ReadResult<T>\<close>, built by \<^verbatim>\<open>ReadResult<T>::noneWithSizeHint\<close> and
  \<^verbatim>\<open>ReadResult<T>::from\<close>.
\<close>

datatype 'a ReadResult = NoneWithSizeHint nat | From 'a

record ParsedEncryptedRecord =
  header :: Buf
  ciphertext :: Buf
  continueReading :: bool

text \<open>
  Modelled from the spec: \<^verbatim>\<open>RecordLayerUtils::parseEncryptedRecord\<close> is not in the
  sources. Section 4.1 step 4: it consumes the full record (header and \<open>length\<close>
  bytes of ciphertext) from the accumulator and returns the raw header bytes, the
  ciphertext and the flag of a \<open>change_cipher_spec\<close> filler record. It is only called
  once the whole record is in the buffer. The second component is the accumulator
  after the call.
\<close>

definition parseEncryptedRecord :: "Buf \<Rightarrow> ParsedEncryptedRecord \<times> Buf" where
  "parseEncryptedRecord buf =
     (let len = unat (readLength buf) in
      (\<lparr>header = take kEncryptedHeaderSize buf,
        ciphertext = take len (drop kEncryptedHeaderSize buf),
        continueReading = (buf ! 0 = change_cipher_spec)\<rparr>,
       drop (kEncryptedHeaderSize + len) buf))"

text \<open>
  Modelled from the spec: \<^verbatim>\<open>RecordLayerUtils::parseAndRemoveContentType\<close> is not in the
  sources. Section 3 (PlaintextFragment): the trailing zero padding is stripped and the
  last non-zero byte is the content type; what is before it stays in the buffer. No
  non-zero byte: \<open>None\<close>.
\<close>

definition parseAndRemoveContentType :: "Buf \<Rightarrow> (ContentType \<times> Buf) option" where
  "parseAndRemoveContentType buf =
     (case dropWhile (\<lambda>b. b = 0) (rev buf) of
        [] \<Rightarrow> None
      | t # payload \<Rightarrow> Some (t, rev payload))"

text \<open>
  Modelled from the spec: \<^verbatim>\<open>prepareBufferWithPadding\<close> is not in the sources.
  Section 6: the padding and size policy is an external decision,
  \<^verbatim>\<open>nextChunk(queue, contentType, maxRecordSize, aead) -> bytes\<close>; it takes bytes off
  the queue. The second component is the queue after the call.
\<close>

definition prepareBufferWithPadding ::
  "Buf \<Rightarrow> ContentType \<Rightarrow> (Buf \<Rightarrow> ContentType \<Rightarrow> nat \<Rightarrow> 'o Aead \<Rightarrow> Buf \<times> Buf) \<Rightarrow> nat \<Rightarrow> 'o Aead
     \<Rightarrow> Buf \<times> Buf" where
  "prepareBufferWithPadding queue ty policy maxRec a = policy queue ty maxRec a"

text \<open>
  Modelled from the spec: \<^verbatim>\<open>RecordLayerUtils::writeEncryptedRecord\<close> is not in the
  sources. Section 4.3 steps 4 and 5: the chunk is encrypted under the given sequence
  number with the given associated data, and the wire record is the header followed by
  the ciphertext.
\<close>

definition writeEncryptedRecord ::
  "Buf \<Rightarrow> 'o Aead \<Rightarrow> Buf \<Rightarrow> Buf option \<Rightarrow> 64 word \<Rightarrow> 'o \<Rightarrow> Buf" where
  "writeEncryptedRecord dataBuf a hdr aad seq options = hdr @ encrypt a dataBuf aad seq options"

subsection \<open>EncryptedReadRecordLayer::getDecryptedBuf\<close>

text \<open>
  The \<^verbatim>\<open>while (true)\<close> loop; each \<^verbatim>\<open>continue\<close> is a recursive call on the accumulator
  that \<open>parseEncryptedRecord\<close> left. \<open>kMax\<close> is \<^verbatim>\<open>kMaxEncryptedRecordSize\<close>, a constant
  whose declaration is not in the sources. In the last branch \<^verbatim>\<open>seqNum_++\<close> is an
  argument of \<^verbatim>\<open>decrypt\<close>: the member is incremented before \<^verbatim>\<open>decrypt\<close> runs, whether it
  throws or not.
\<close>

function getDecryptedBuf ::
  "nat \<Rightarrow> 'o EncryptedReadRecordLayer \<Rightarrow> Buf \<Rightarrow> 'o
     \<Rightarrow> (error + Buf ReadResult) \<times> 'o EncryptedReadRecordLayer \<times> Buf" where
  "getDecryptedBuf kMax self buf options =
     (if length buf < kEncryptedHeaderSize
      then (Inr (NoneWithSizeHint (kEncryptedHeaderSize - length buf)), self, buf)
      else
        let len = unat (readLength buf) in
        if len > kMax then (Inl OversizedRecord, self, buf)
        else
          let consumedBytes = kEncryptedHeaderSize in
          if length buf < consumedBytes + len
          then (Inr (NoneWithSizeHint ((consumedBytes + len) - length buf)), self, buf)
          else
            let (parsedRecord, buf') = parseEncryptedRecord buf in
            if continueReading parsedRecord then getDecryptedBuf kMax self buf' options
            else if seqNum self = - 1 then (Inl SequenceExhausted, self, buf')
            else
              let aad = (if useAdditionalData self then Some (header parsedRecord) else None) in
              if skipFailedDecryption self then
                (case tryDecrypt (aead self) (ciphertext parsedRecord) aad (seqNum self) options of
                   Some plaintext \<Rightarrow>
                     (Inr (From plaintext),
                      self\<lparr>seqNum := seqNum self + 1, skipFailedDecryption := False\<rparr>, buf')
                 | None \<Rightarrow> getDecryptedBuf kMax self buf' options)
              else
                (case decrypt (aead self) (ciphertext parsedRecord) aad (seqNum self) options of
                   Some plaintext \<Rightarrow> (Inr (From plaintext), self\<lparr>seqNum := seqNum self + 1\<rparr>, buf')
                 | None \<Rightarrow> (Inl AuthenticationFailed, self\<lparr>seqNum := seqNum self + 1\<rparr>, buf')))"
  by pat_completeness auto
termination
  by (relation "measure (\<lambda>(kMax, self, buf, options). length buf)")
     (auto simp: parseEncryptedRecord_def kEncryptedHeaderSize_def Let_def)

declare getDecryptedBuf.simps [simp del]

subsection \<open>EncryptedReadRecordLayer::read\<close>

definition read ::
  "nat \<Rightarrow> 'o EncryptedReadRecordLayer \<Rightarrow> Buf \<Rightarrow> 'o
     \<Rightarrow> (error + TLSMessage ReadResult) \<times> 'o EncryptedReadRecordLayer \<times> Buf" where
  "read kMax self buf options =
     (case getDecryptedBuf kMax self buf options of
        (Inl e, self', buf') \<Rightarrow> (Inl e, self', buf')
      | (Inr (NoneWithSizeHint sizeHint), self', buf') \<Rightarrow>
          (Inr (NoneWithSizeHint sizeHint), self', buf')
      | (Inr (From decryptedBuf), self', buf') \<Rightarrow>
          (case parseAndRemoveContentType decryptedBuf of
             None \<Rightarrow> (Inl MalformedPadding, self', buf')
           | Some (maybeContentType, rest) \<Rightarrow>
               let msg = \<lparr>type = maybeContentType, fragment = Some rest\<rparr> in
               if type msg = handshake \<or> type msg = alert \<or> type msg = application_data
               then
                 if fragment msg = None \<or> the (fragment msg) = []
                 then
                   if type msg = application_data
                   then (Inr (From (msg\<lparr>fragment := Some []\<rparr>)), self', buf')
                   else (Inl EmptyFragment, self', buf')
                 else (Inr (From msg), self', buf')
               else (Inl (UnexpectedContentType (type msg)), self', buf')))"

definition getEncryptionLevel :: "('o, 'z) RecordLayer_scheme \<Rightarrow> EncryptionLevel" where
  "getEncryptionLevel self = encryptionLevel self"

subsection \<open>EncryptedWriteRecordLayer::write\<close>

text \<open>How many sequence numbers are left below the maximum: what the loop of \<open>write\<close> uses up.\<close>

definition seqNumsLeft :: "64 word \<Rightarrow> nat" where
  "seqNumsLeft s = 2 ^ 64 - 1 - unat s"

lemma unat_seqNum_Suc: "(s :: 64 word) \<noteq> - 1 \<Longrightarrow> unat (s + 1) = Suc (unat s)"
  by (simp add: unatSuc add.commute add_eq_0_iff)

lemma unat_seqNum_less: "unat (s :: 64 word) < 2 ^ 64"
  using unsigned_less [of s, where 'a = nat] by simp

lemma seqNumsLeft_less: "(s :: 64 word) \<noteq> - 1 \<Longrightarrow> seqNumsLeft (s + 1) < seqNumsLeft s"
  using unat_seqNum_less [of "s + 1"] by (simp add: seqNumsLeft_def unat_seqNum_Suc)

text \<open>
  The \<^verbatim>\<open>while (!queue.empty())\<close> loop of \<^verbatim>\<open>write\<close>. \<open>outBuf\<close> is a nullable pointer to
  the chain of records built so far; \<^verbatim>\<open>prependChain\<close> on the head of the chain links
  the new record at its end. An iteration either stops or increments the sequence
  number, which stops the loop at \<^verbatim>\<open>std::numeric_limits<uint64_t>::max()\<close>. The
  length written into the header is cast to \<^verbatim>\<open>uint16_t\<close>. The call
  \<^verbatim>\<open>setEncryptedBufferHeadroom\<close> only reserves room in the buffers and has no
  counterpart on byte lists.
\<close>

function write_loop ::
  "'o EncryptedWriteRecordLayer \<Rightarrow> ContentType \<Rightarrow> 'o \<Rightarrow> Buf \<Rightarrow> Buf option
     \<Rightarrow> (error + Buf option) \<times> 'o EncryptedWriteRecordLayer" where
  "write_loop self msg_type options queue outBuf =
     (if queue = [] then (Inr outBuf, self)
      else if seqNum self = - 1 then (Inl SequenceExhausted, self)
      else
        let (dataBuf, queue') =
              prepareBufferWithPadding queue msg_type (bufAndPaddingPolicy self) (maxRecord self)
                (aead self);
            ciphertextLength = length dataBuf + getCipherOverhead (aead self);
            hdr = writeBE8 application_data @ writeBE16 tls_1_2
                    @ writeBE16 (of_nat ciphertextLength);
            recordBuf =
              writeEncryptedRecord dataBuf (aead self) hdr
                (if useAdditionalData self then Some hdr else None) (seqNum self) options;
            self' = self\<lparr>seqNum := seqNum self + 1\<rparr>
        in write_loop self' msg_type options queue'
             (Some (case outBuf of None \<Rightarrow> recordBuf | Some out \<Rightarrow> out @ recordBuf)))"
  by pat_completeness auto
termination
  by (relation "measure (\<lambda>(self, msg_type, options, queue, outBuf). seqNumsLeft (seqNum self))")
     (simp_all add: seqNumsLeft_less)

declare write_loop.simps [simp del]

text \<open>
  \<^verbatim>\<open>EncryptedWriteRecordLayer::write\<close>; the name \<open>write\<close> is a keyword of Isabelle. A
  null fragment appends nothing to the queue. The layer comes back with the sequence
  number as the loop left it, also when the loop threw.
\<close>

definition write_msg ::
  "'o EncryptedWriteRecordLayer \<Rightarrow> TLSMessage \<Rightarrow> 'o
     \<Rightarrow> (error + TLSContent) \<times> 'o EncryptedWriteRecordLayer" where
  "write_msg self msg options =
     (let queue = (case fragment msg of None \<Rightarrow> [] | Some b \<Rightarrow> b) in
      case write_loop self (type msg) options queue None of
        (Inl e, self') \<Rightarrow> (Inl e, self')
      | (Inr outBuf, self') \<Rightarrow>
          (Inr \<lparr>data = (case outBuf of None \<Rightarrow> [] | Some out \<Rightarrow> out),
                contentType = type msg,
                encryptionLevel = encryptionLevel self\<rparr>, self'))"

subsection \<open>Drivers and traces used to state the properties\<close>

text \<open>
  Feeding the accumulator one byte per call: \<open>read\<close> is called on the accumulator, and as
  long as it answers that it needs more bytes the next byte of the stream is appended
  and \<open>read\<close> is called again. The result is the first answer that is not a need for
  more bytes, or the last answer when the stream runs out.
\<close>

fun feedBytes ::
  "nat \<Rightarrow> 'o EncryptedReadRecordLayer \<Rightarrow> Buf \<Rightarrow> Buf \<Rightarrow> 'o
     \<Rightarrow> (error + TLSMessage ReadResult) \<times> 'o EncryptedReadRecordLayer \<times> Buf" where
  "feedBytes kMax self buf [] options = read kMax self buf options"
| "feedBytes kMax self buf (b # bs) options =
     (case read kMax self buf options of
        (Inr (NoneWithSizeHint sizeHint), self', buf') \<Rightarrow>
          feedBytes kMax self' (buf' @ [b]) bs options
      | r \<Rightarrow> r)"

text \<open>
  \<open>n\<close> calls of \<open>read\<close> in a row on the same accumulator, each of which has to return a
  message: the messages in order, the layer and the accumulator after the last call.
\<close>

fun readRecords ::
  "nat \<Rightarrow> nat \<Rightarrow> 'o EncryptedReadRecordLayer \<Rightarrow> Buf \<Rightarrow> 'o
     \<Rightarrow> (TLSMessage list \<times> 'o EncryptedReadRecordLayer \<times> Buf) option" where
  "readRecords 0 kMax self buf options = Some ([], self, buf)"
| "readRecords (Suc n) kMax self buf options =
     (case read kMax self buf options of
        (Inr (From msg), self', buf') \<Rightarrow>
          (case readRecords n kMax self' buf' options of
             Some (msgs, self'', buf'') \<Rightarrow> Some (msg # msgs, self'', buf'')
           | None \<Rightarrow> None)
      | _ \<Rightarrow> None)"

text \<open>
  The plaintext chunks that the loop of \<open>write\<close> draws from the policy, in order: the
  loop's own iteration with everything but the policy's calls left out.
\<close>

function policyChunks :: "'o EncryptedWriteRecordLayer \<Rightarrow> ContentType \<Rightarrow> Buf \<Rightarrow> Buf list" where
  "policyChunks self msg_type queue =
     (if queue = [] \<or> seqNum self = - 1 then []
      else
        let (dataBuf, queue') =
              prepareBufferWithPadding queue msg_type (bufAndPaddingPolicy self) (maxRecord self)
                (aead self)
        in dataBuf # policyChunks (self\<lparr>seqNum := seqNum self + 1\<rparr>) msg_type queue')"
  by pat_completeness auto
termination
  by (relation "measure (\<lambda>(self, msg_type, queue). seqNumsLeft (seqNum self))")
     (simp_all add: seqNumsLeft_less)

declare policyChunks.simps [simp del]

text \<open>
  What is left of the queue when the loop of \<open>write\<close> stops: nothing when it came to
  the end of the queue, the bytes not yet written when the sequence number reached its
  maximum first.
\<close>

function policyRest :: "'o EncryptedWriteRecordLayer \<Rightarrow> ContentType \<Rightarrow> Buf \<Rightarrow> Buf" where
  "policyRest self msg_type queue =
     (if queue = [] \<or> seqNum self = - 1 then queue
      else
        let (dataBuf, queue') =
              prepareBufferWithPadding queue msg_type (bufAndPaddingPolicy self) (maxRecord self)
                (aead self)
        in policyRest (self\<lparr>seqNum := seqNum self + 1\<rparr>) msg_type queue')"
  by pat_completeness auto
termination
  by (relation "measure (\<lambda>(self, msg_type, queue). seqNumsLeft (seqNum self))")
     (simp_all add: seqNumsLeft_less)

declare policyRest.simps [simp del]

text \<open>
  The wire format of section 6 of the spec for a record whose ciphertext has \<open>n\<close>
  bytes: content type 23, version bytes 3 and 3, and \<open>n\<close> in two bytes, high byte first.
\<close>

definition recordHeader :: "nat \<Rightarrow> Buf" where
  "recordHeader n =
     [23, 3, 3, ucast (drop_bit 8 (word_of_nat n :: 16 word)), ucast (word_of_nat n :: 16 word)]"

text \<open>
  The wire records of a list of plaintext chunks, the first one encrypted under
  sequence number \<open>s\<close> and each next one under the next number.
\<close>

primrec wireRecords :: "'o Aead \<Rightarrow> bool \<Rightarrow> 'o \<Rightarrow> 64 word \<Rightarrow> Buf list \<Rightarrow> Buf list" where
  "wireRecords a useAD options s [] = []"
| "wireRecords a useAD options s (d # ds) =
     (recordHeader (length d + getCipherOverhead a)
        @ encrypt a d
            (if useAD then Some (recordHeader (length d + getCipherOverhead a)) else None)
            s options)
     # wireRecords a useAD options (s + 1) ds"

subsection \<open>A small AEAD, a policy and layers to run the model on\<close>

text \<open>
  The tag of the example AEAD is one byte, the low byte of the sequence number;
  decryption fails on a record with another last byte.
\<close>

definition exAead :: "unit Aead" where
  "exAead =
     \<lparr>encrypt = (\<lambda>d aad n opts. d @ [ucast n]),
      decrypt = (\<lambda>c aad n opts. if c \<noteq> [] \<and> last c = ucast n then Some (butlast c) else None),
      tryDecrypt = (\<lambda>c aad n opts. if c \<noteq> [] \<and> last c = ucast n then Some (butlast c) else None),
      getCipherOverhead = 1\<rparr>"

text \<open>The example policy takes up to \<open>maxRecord\<close> bytes and pads with one zero byte.\<close>

definition exPolicy :: "Buf \<Rightarrow> ContentType \<Rightarrow> nat \<Rightarrow> unit Aead \<Rightarrow> Buf \<times> Buf" where
  "exPolicy queue ty maxRec a = (take maxRec queue @ [ty, 0], drop maxRec queue)"

definition exReader :: "64 word \<Rightarrow> bool \<Rightarrow> unit EncryptedReadRecordLayer" where
  "exReader s skip =
     \<lparr>aead = exAead, useAdditionalData = True, seqNum = s, encryptionLevel = AppTraffic,
      skipFailedDecryption = skip\<rparr>"

definition exWriter :: "64 word \<Rightarrow> nat \<Rightarrow> unit EncryptedWriteRecordLayer" where
  "exWriter s m =
     \<lparr>aead = exAead, useAdditionalData = True, seqNum = s, encryptionLevel = AppTraffic,
      maxRecord = m, bufAndPaddingPolicy = exPolicy\<rparr>"

section \<open>Properties\<close>

subsection \<open>One pass of the read loop\<close>

lemmas wire_defs =
  kEncryptedHeaderSize_def readLength_def change_cipher_spec_def alert_def handshake_def
  application_data_def tls_1_2_def writeBE8_def writeBE16_def

lemmas ex_defs = exAead_def exPolicy_def exReader_def exWriter_def

lemma getDecryptedBuf_short:
  "length buf < kEncryptedHeaderSize \<Longrightarrow>
   getDecryptedBuf kMax self buf options =
     (Inr (NoneWithSizeHint (kEncryptedHeaderSize - length buf)), self, buf)"
  by (subst getDecryptedBuf.simps) simp

lemma getDecryptedBuf_oversized:
  "kEncryptedHeaderSize \<le> length buf \<Longrightarrow> kMax < unat (readLength buf) \<Longrightarrow>
   getDecryptedBuf kMax self buf options = (Inl OversizedRecord, self, buf)"
  by (subst getDecryptedBuf.simps) simp

lemma getDecryptedBuf_incomplete:
  "kEncryptedHeaderSize \<le> length buf \<Longrightarrow> unat (readLength buf) \<le> kMax \<Longrightarrow>
   length buf < kEncryptedHeaderSize + unat (readLength buf) \<Longrightarrow>
   getDecryptedBuf kMax self buf options =
     (Inr (NoneWithSizeHint (kEncryptedHeaderSize + unat (readLength buf) - length buf)), self, buf)"
  by (subst getDecryptedBuf.simps) simp

lemma getDecryptedBuf_filler:
  "kEncryptedHeaderSize \<le> length buf \<Longrightarrow> unat (readLength buf) \<le> kMax \<Longrightarrow>
   kEncryptedHeaderSize + unat (readLength buf) \<le> length buf \<Longrightarrow>
   buf ! 0 = change_cipher_spec \<Longrightarrow>
   getDecryptedBuf kMax self buf options =
     getDecryptedBuf kMax self (drop (kEncryptedHeaderSize + unat (readLength buf)) buf) options"
  by (subst getDecryptedBuf.simps) (simp add: parseEncryptedRecord_def)

lemma getDecryptedBuf_record:
  "kEncryptedHeaderSize \<le> length buf \<Longrightarrow> unat (readLength buf) \<le> kMax \<Longrightarrow>
   kEncryptedHeaderSize + unat (readLength buf) \<le> length buf \<Longrightarrow>
   buf ! 0 \<noteq> change_cipher_spec \<Longrightarrow>
   getDecryptedBuf kMax self buf options =
     (let len = unat (readLength buf);
          buf' = drop (kEncryptedHeaderSize + len) buf;
          ct = take len (drop kEncryptedHeaderSize buf);
          aad = (if useAdditionalData self then Some (take kEncryptedHeaderSize buf) else None)
      in if seqNum self = - 1 then (Inl SequenceExhausted, self, buf')
         else if skipFailedDecryption self then
           (case tryDecrypt (aead self) ct aad (seqNum self) options of
              Some plaintext \<Rightarrow>
                (Inr (From plaintext),
                 self\<lparr>seqNum := seqNum self + 1, skipFailedDecryption := False\<rparr>, buf')
            | None \<Rightarrow> getDecryptedBuf kMax self buf' options)
         else
           (case decrypt (aead self) ct aad (seqNum self) options of
              Some plaintext \<Rightarrow> (Inr (From plaintext), self\<lparr>seqNum := seqNum self + 1\<rparr>, buf')
            | None \<Rightarrow> (Inl AuthenticationFailed, self\<lparr>seqNum := seqNum self + 1\<rparr>, buf')))"
  by (subst getDecryptedBuf.simps) (simp add: parseEncryptedRecord_def Let_def)

text \<open>
  What a call does to the layer, by its outcome: a returned plaintext stands for one
  increment of the sequence number and a cleared skip flag, an authentication failure
  of \<open>decrypt\<close> for one increment, and every other outcome for no change at all.
\<close>

lemma getDecryptedBuf_state:
  "getDecryptedBuf kMax self buf options = (r, self', buf') \<Longrightarrow>
   (case r of
      Inr (From p) \<Rightarrow>
        seqNum self \<noteq> - 1
        \<and> self' = self\<lparr>seqNum := seqNum self + 1, skipFailedDecryption := False\<rparr>
    | Inr (NoneWithSizeHint h) \<Rightarrow> self' = self
    | Inl e \<Rightarrow>
        if e = AuthenticationFailed
        then seqNum self \<noteq> - 1 \<and> \<not> skipFailedDecryption self
             \<and> self' = self\<lparr>seqNum := seqNum self + 1\<rparr>
        else (e = OversizedRecord \<or> e = SequenceExhausted) \<and> self' = self)"
proof (induction "length buf" arbitrary: buf rule: less_induct)
  case less
  let ?n = "kEncryptedHeaderSize + unat (readLength buf)"
  consider (short) "length buf < kEncryptedHeaderSize"
    | (oversized) "kEncryptedHeaderSize \<le> length buf" "kMax < unat (readLength buf)"
    | (incomplete) "kEncryptedHeaderSize \<le> length buf" "unat (readLength buf) \<le> kMax"
        "length buf < ?n"
    | (filler) "kEncryptedHeaderSize \<le> length buf" "unat (readLength buf) \<le> kMax"
        "?n \<le> length buf" "buf ! 0 = change_cipher_spec"
    | (whole) "kEncryptedHeaderSize \<le> length buf" "unat (readLength buf) \<le> kMax"
        "?n \<le> length buf" "buf ! 0 \<noteq> change_cipher_spec"
    by linarith
  then show ?case
  proof cases
    case short
    with less.prems show ?thesis by (auto simp: getDecryptedBuf_short)
  next
    case oversized
    with less.prems show ?thesis by (auto simp: getDecryptedBuf_oversized)
  next
    case incomplete
    with less.prems show ?thesis by (auto simp: getDecryptedBuf_incomplete)
  next
    case filler
    have "length (drop ?n buf) < length buf"
      using filler by (simp add: kEncryptedHeaderSize_def)
    moreover have "getDecryptedBuf kMax self (drop ?n buf) options = (r, self', buf')"
      using filler less.prems by (simp add: getDecryptedBuf_filler)
    ultimately show ?thesis by (rule less.hyps)
  next
    case whole
    have shorter: "length (drop ?n buf) < length buf"
      using whole by (simp add: kEncryptedHeaderSize_def)
    note IH = less.hyps [OF shorter]
    let ?aad = "if useAdditionalData self then Some (take kEncryptedHeaderSize buf) else None"
    let ?ct = "take (unat (readLength buf)) (drop kEncryptedHeaderSize buf)"
    show ?thesis
    proof (cases "seqNum self \<noteq> - 1 \<and> skipFailedDecryption self
                    \<and> tryDecrypt (aead self) ?ct ?aad (seqNum self) options = None")
      case True
      then have "getDecryptedBuf kMax self (drop ?n buf) options = (r, self', buf')"
        using less.prems whole by (simp add: getDecryptedBuf_record Let_def)
      then show ?thesis by (rule IH)
    next
      case False
      with less.prems whole show ?thesis
        by (auto simp: getDecryptedBuf_record Let_def split: if_splits option.splits)
    qed
  qed
qed

text \<open>
  Bytes that arrive behind the accumulator do not change what the loop has done so far:
  a call that asked for more bytes goes on where it stopped, any other outcome stays.
\<close>

lemma readLength_append:
  "kEncryptedHeaderSize \<le> length buf \<Longrightarrow> readLength (buf @ xs) = readLength buf"
  by (simp add: readLength_def kEncryptedHeaderSize_def nth_append)

lemma getDecryptedBuf_append:
  "getDecryptedBuf kMax self (buf @ xs) options =
     (case getDecryptedBuf kMax self buf options of
        (Inr (NoneWithSizeHint h), self', buf') \<Rightarrow> getDecryptedBuf kMax self' (buf' @ xs) options
      | (r, self', buf') \<Rightarrow> (r, self', buf' @ xs))"
proof (induction "length buf" arbitrary: buf rule: less_induct)
  case less
  let ?n = "kEncryptedHeaderSize + unat (readLength buf)"
  consider (short) "length buf < kEncryptedHeaderSize"
    | (oversized) "kEncryptedHeaderSize \<le> length buf" "kMax < unat (readLength buf)"
    | (incomplete) "kEncryptedHeaderSize \<le> length buf" "unat (readLength buf) \<le> kMax"
        "length buf < ?n"
    | (filler) "kEncryptedHeaderSize \<le> length buf" "unat (readLength buf) \<le> kMax"
        "?n \<le> length buf" "buf ! 0 = change_cipher_spec"
    | (whole) "kEncryptedHeaderSize \<le> length buf" "unat (readLength buf) \<le> kMax"
        "?n \<le> length buf" "buf ! 0 \<noteq> change_cipher_spec"
    by linarith
  then show ?case
  proof cases
    case short
    then show ?thesis by (simp add: getDecryptedBuf_short)
  next
    case oversized
    then show ?thesis by (simp add: getDecryptedBuf_oversized readLength_append)
  next
    case incomplete
    then show ?thesis by (simp add: getDecryptedBuf_incomplete)
  next
    case filler
    have shorter: "length (drop ?n buf) < length buf"
      using filler by (simp add: kEncryptedHeaderSize_def)
    have "buf \<noteq> []"
      using filler by (auto simp: kEncryptedHeaderSize_def)
    then have "getDecryptedBuf kMax self (buf @ xs) options
            = getDecryptedBuf kMax self (drop ?n buf @ xs) options"
      using filler
      by (subst getDecryptedBuf_filler) (simp_all add: readLength_append nth_append)
    also note less.hyps [OF shorter]
    finally show ?thesis using filler by (simp add: getDecryptedBuf_filler)
  next
    case whole
    have shorter: "length (drop ?n buf) < length buf"
      using whole by (simp add: kEncryptedHeaderSize_def)
    have "buf \<noteq> []"
      using whole by (auto simp: kEncryptedHeaderSize_def)
    then have big: "kEncryptedHeaderSize \<le> length (buf @ xs)" "unat (readLength (buf @ xs)) \<le> kMax"
      "kEncryptedHeaderSize + unat (readLength (buf @ xs)) \<le> length (buf @ xs)"
      "(buf @ xs) ! 0 \<noteq> change_cipher_spec"
      using whole by (simp_all add: readLength_append nth_append)
    have parts: "drop ?n (buf @ xs) = drop ?n buf @ xs"
      "take (unat (readLength buf)) (drop kEncryptedHeaderSize (buf @ xs))
         = take (unat (readLength buf)) (drop kEncryptedHeaderSize buf)"
      "take kEncryptedHeaderSize (buf @ xs) = take kEncryptedHeaderSize buf"
      using whole by simp_all
    show ?thesis
      using whole
      by (simp add: getDecryptedBuf_record [OF big] getDecryptedBuf_record [OF whole]
            readLength_append parts less.hyps [OF shorter] Let_def split: option.splits)
  qed
qed

text \<open>
  A complete record at the head of the accumulator, written as its header, its
  ciphertext and the bytes behind it.
\<close>

lemma record_at_head:
  assumes "length hdr = kEncryptedHeaderSize" and "unat (readLength hdr) = length ct"
  shows "kEncryptedHeaderSize \<le> length (hdr @ ct @ rest)"
    and "readLength (hdr @ ct @ rest) = readLength hdr"
    and "kEncryptedHeaderSize + unat (readLength (hdr @ ct @ rest)) \<le> length (hdr @ ct @ rest)"
    and "(hdr @ ct @ rest) ! 0 = hdr ! 0"
    and "take kEncryptedHeaderSize (hdr @ ct @ rest) = hdr"
    and "take (length ct) (drop kEncryptedHeaderSize (hdr @ ct @ rest)) = ct"
    and "drop (kEncryptedHeaderSize + length ct) (hdr @ ct @ rest) = rest"
proof -
  have ne: "hdr \<noteq> []"
    using assms(1) by (auto simp: kEncryptedHeaderSize_def)
  show "kEncryptedHeaderSize \<le> length (hdr @ ct @ rest)"
    using assms(1) by simp
  show len: "readLength (hdr @ ct @ rest) = readLength hdr"
    using assms(1) by (simp add: readLength_append)
  show "kEncryptedHeaderSize + unat (readLength (hdr @ ct @ rest)) \<le> length (hdr @ ct @ rest)"
    using assms by (simp add: len)
  show "(hdr @ ct @ rest) ! 0 = hdr ! 0"
    using ne by (simp add: nth_append)
  show "take kEncryptedHeaderSize (hdr @ ct @ rest) = hdr"
    using assms(1) by simp
  show "take (length ct) (drop kEncryptedHeaderSize (hdr @ ct @ rest)) = ct"
    using assms(1) by simp
  show "drop (kEncryptedHeaderSize + length ct) (hdr @ ct @ rest) = rest"
    using assms(1) by simp
qed

lemma getDecryptedBuf_head_filler:
  assumes "length hdr = kEncryptedHeaderSize" and "unat (readLength hdr) = length ct"
    and "length ct \<le> kMax" and "hdr ! 0 = change_cipher_spec"
  shows "getDecryptedBuf kMax self (hdr @ ct @ rest) options
           = getDecryptedBuf kMax self rest options"
  using assms record_at_head [OF assms(1,2), of rest]
  by (subst getDecryptedBuf_filler) simp_all

lemma getDecryptedBuf_head:
  assumes "length hdr = kEncryptedHeaderSize" and "unat (readLength hdr) = length ct"
    and "length ct \<le> kMax" and "hdr ! 0 \<noteq> change_cipher_spec"
  shows "getDecryptedBuf kMax self (hdr @ ct @ rest) options =
     (let aad = (if useAdditionalData self then Some hdr else None)
      in if seqNum self = - 1 then (Inl SequenceExhausted, self, rest)
         else if skipFailedDecryption self then
           (case tryDecrypt (aead self) ct aad (seqNum self) options of
              Some plaintext \<Rightarrow>
                (Inr (From plaintext),
                 self\<lparr>seqNum := seqNum self + 1, skipFailedDecryption := False\<rparr>, rest)
            | None \<Rightarrow> getDecryptedBuf kMax self rest options)
         else
           (case decrypt (aead self) ct aad (seqNum self) options of
              Some plaintext \<Rightarrow> (Inr (From plaintext), self\<lparr>seqNum := seqNum self + 1\<rparr>, rest)
            | None \<Rightarrow> (Inl AuthenticationFailed, self\<lparr>seqNum := seqNum self + 1\<rparr>, rest)))"
  using assms record_at_head [OF assms(1,2), of rest]
  by (subst getDecryptedBuf_record) (simp_all add: Let_def cong: option.case_cong)

lemma read_append:
  "read kMax self (buf @ xs) options =
     (case read kMax self buf options of
        (Inr (NoneWithSizeHint h), self', buf') \<Rightarrow> read kMax self' (buf' @ xs) options
      | (r, self', buf') \<Rightarrow> (r, self', buf' @ xs))"
proof -
  obtain r self' buf' where g: "getDecryptedBuf kMax self buf options = (r, self', buf')"
    by (cases "getDecryptedBuf kMax self buf options") auto
  show ?thesis
  proof (cases r)
    case (Inl e)
    with g show ?thesis by (simp add: read_def getDecryptedBuf_append)
  next
    case (Inr res)
    show ?thesis
    proof (cases res)
      case (NoneWithSizeHint h)
      with g Inr show ?thesis by (simp add: read_def getDecryptedBuf_append)
    next
      case (From p)
      with g Inr show ?thesis
        by (simp add: read_def getDecryptedBuf_append Let_def split: option.splits)
    qed
  qed
qed

subsection \<open>The loop of write\<close>

text \<open>
  One iteration of the loop, and the three ways a run of it goes: the queue is empty,
  the sequence number is at its maximum, or a record is written and the loop goes on.
\<close>

lemma header_bytes:
  "writeBE8 application_data @ writeBE16 tls_1_2 @ writeBE16 (word_of_nat n) = recordHeader n"
  by (simp add: wire_defs recordHeader_def)

lemma write_loop_Nil: "write_loop self ty options [] outBuf = (Inr outBuf, self)"
  by (subst write_loop.simps) simp

lemma write_loop_exhausted:
  "queue \<noteq> [] \<Longrightarrow> seqNum self = - 1 \<Longrightarrow>
   write_loop self ty options queue outBuf = (Inl SequenceExhausted, self)"
  by (subst write_loop.simps) simp

lemma write_loop_step:
  assumes "queue \<noteq> []" and "seqNum self \<noteq> - 1"
    and "bufAndPaddingPolicy self queue ty (maxRecord self) (aead self) = (d, queue')"
  shows "write_loop self ty options queue outBuf =
     write_loop (self\<lparr>seqNum := seqNum self + 1\<rparr>) ty options queue'
       (Some ((case outBuf of None \<Rightarrow> [] | Some out \<Rightarrow> out)
              @ recordHeader (length d + getCipherOverhead (aead self))
              @ encrypt (aead self) d
                  (if useAdditionalData self
                   then Some (recordHeader (length d + getCipherOverhead (aead self))) else None)
                  (seqNum self) options))"
  using assms
  by (subst write_loop.simps)
     (simp add: prepareBufferWithPadding_def writeEncryptedRecord_def header_bytes Let_def
        split: option.split)

lemma policyChunks_stop:
  "queue = [] \<or> seqNum self = - 1 \<Longrightarrow> policyChunks self ty queue = []"
  by (subst policyChunks.simps) simp

lemma policyChunks_step:
  assumes "queue \<noteq> []" and "seqNum self \<noteq> - 1"
    and "bufAndPaddingPolicy self queue ty (maxRecord self) (aead self) = (d, queue')"
  shows "policyChunks self ty queue = d # policyChunks (self\<lparr>seqNum := seqNum self + 1\<rparr>) ty queue'"
  using assms by (subst policyChunks.simps) (simp add: prepareBufferWithPadding_def)

lemma write_loop_cases [consumes 1, case_names finished exhausted step]:
  assumes run: "write_loop self ty options queue outBuf = (r, self')"
    and finished: "\<lbrakk>queue = []; r = Inr outBuf; self' = self\<rbrakk> \<Longrightarrow> P"
    and exhausted:
      "\<lbrakk>queue \<noteq> []; seqNum self = - 1; r = Inl SequenceExhausted; self' = self\<rbrakk> \<Longrightarrow> P"
    and step:
      "\<And>d queue'.
         \<lbrakk>queue \<noteq> []; seqNum self \<noteq> - 1;
          bufAndPaddingPolicy self queue ty (maxRecord self) (aead self) = (d, queue');
          policyChunks self ty queue
            = d # policyChunks (self\<lparr>seqNum := seqNum self + 1\<rparr>) ty queue';
          seqNumsLeft (seqNum self + 1) < seqNumsLeft (seqNum self);
          write_loop (self\<lparr>seqNum := seqNum self + 1\<rparr>) ty options queue'
            (Some ((case outBuf of None \<Rightarrow> [] | Some out \<Rightarrow> out)
                   @ recordHeader (length d + getCipherOverhead (aead self))
                   @ encrypt (aead self) d
                       (if useAdditionalData self
                        then Some (recordHeader (length d + getCipherOverhead (aead self)))
                        else None)
                       (seqNum self) options))
            = (r, self')\<rbrakk> \<Longrightarrow> P"
  shows P
proof (cases "queue = []")
  case True
  with run have "r = Inr outBuf" "self' = self"
    by (simp_all add: write_loop_Nil)
  then show ?thesis by (rule finished [OF True])
next
  case ne: False
  show ?thesis
  proof (cases "seqNum self = - 1")
    case True
    with ne run have "r = Inl SequenceExhausted" "self' = self"
      by (simp_all add: write_loop_exhausted)
    then show ?thesis by (rule exhausted [OF ne True])
  next
    case False
    obtain d queue' where pol:
      "bufAndPaddingPolicy self queue ty (maxRecord self) (aead self) = (d, queue')"
      by (cases "bufAndPaddingPolicy self queue ty (maxRecord self) (aead self)") auto
    have "write_loop (self\<lparr>seqNum := seqNum self + 1\<rparr>) ty options queue'
            (Some ((case outBuf of None \<Rightarrow> [] | Some out \<Rightarrow> out)
                   @ recordHeader (length d + getCipherOverhead (aead self))
                   @ encrypt (aead self) d
                       (if useAdditionalData self
                        then Some (recordHeader (length d + getCipherOverhead (aead self)))
                        else None)
                       (seqNum self) options))
            = (r, self')"
      using run unfolding write_loop_step [OF ne False pol] .
    then show ?thesis
      by (rule step [OF ne False pol policyChunks_step [OF ne False pol] seqNumsLeft_less [OF False]])
  qed
qed

lemma write_loop_seqNum:
  "write_loop self ty options queue outBuf = (r, self') \<Longrightarrow>
   unat (seqNum self') = unat (seqNum self) + length (policyChunks self ty queue)"
proof (induction "seqNumsLeft (seqNum self)" arbitrary: self queue outBuf rule: less_induct)
  case less
  from less.prems show ?case
  proof (cases rule: write_loop_cases)
    case finished
    then show ?thesis by (simp add: policyChunks_stop)
  next
    case exhausted
    then show ?thesis by (simp add: policyChunks_stop)
  next
    case (step d queue')
    have "unat (seqNum self')
            = unat (seqNum (self\<lparr>seqNum := seqNum self + 1\<rparr>))
              + length (policyChunks (self\<lparr>seqNum := seqNum self + 1\<rparr>) ty queue')"
      by (rule less.hyps [OF _ step(6)]) (simp add: step(5))
    then show ?thesis
      using step(2) by (simp add: step(4) unat_seqNum_Suc)
  qed
qed

lemma write_loop_layer:
  "write_loop self ty options queue outBuf = (r, self') \<Longrightarrow>
   self' = self\<lparr>seqNum := seqNum self + word_of_nat (length (policyChunks self ty queue))\<rparr>"
proof (induction "seqNumsLeft (seqNum self)" arbitrary: self queue outBuf rule: less_induct)
  case less
  from less.prems show ?case
  proof (cases rule: write_loop_cases)
    case finished
    then show ?thesis by (simp add: policyChunks_stop)
  next
    case exhausted
    then show ?thesis by (simp add: policyChunks_stop)
  next
    case (step d queue')
    let ?self = "self\<lparr>seqNum := seqNum self + 1\<rparr>"
    have less': "seqNumsLeft (seqNum ?self) < seqNumsLeft (seqNum self)"
      using step(5) by simp
    show ?thesis
      using less.hyps [OF less' step(6)] by (simp add: step(4) add.assoc)
  qed
qed

lemma write_loop_error:
  "write_loop self ty options queue outBuf = (Inl e, self') \<Longrightarrow>
   e = SequenceExhausted \<and> seqNum self' = - 1"
proof (induction "seqNumsLeft (seqNum self)" arbitrary: self queue outBuf rule: less_induct)
  case less
  from less.prems show ?case
  proof (cases rule: write_loop_cases)
    case finished
    then show ?thesis by simp
  next
    case exhausted
    then show ?thesis by simp
  next
    case (step d queue')
    let ?self = "self\<lparr>seqNum := seqNum self + 1\<rparr>"
    have less': "seqNumsLeft (seqNum ?self) < seqNumsLeft (seqNum self)"
      using step(5) by simp
    show ?thesis
      by (rule less.hyps [OF less' step(6)])
  qed
qed

lemma write_loop_output:
  "write_loop self ty options queue outBuf = (Inr out, self') \<Longrightarrow>
   out = (if policyChunks self ty queue = [] then outBuf
          else Some ((case outBuf of None \<Rightarrow> [] | Some b \<Rightarrow> b)
                     @ concat (wireRecords (aead self) (useAdditionalData self) options
                                 (seqNum self) (policyChunks self ty queue))))"
proof (induction "seqNumsLeft (seqNum self)" arbitrary: self queue outBuf rule: less_induct)
  case less
  from less.prems show ?case
  proof (cases rule: write_loop_cases)
    case finished
    then show ?thesis by (simp add: policyChunks_stop)
  next
    case exhausted
    then show ?thesis by simp
  next
    case (step d queue')
    let ?self = "self\<lparr>seqNum := seqNum self + 1\<rparr>"
    have less': "seqNumsLeft (seqNum ?self) < seqNumsLeft (seqNum self)"
      using step(5) by simp
    show ?thesis
      using less.hyps [OF less' step(6)] by (simp add: step(4))
  qed
qed

text \<open>
  The loop returns exactly when it came to the end of the queue.
\<close>

lemma policyRest_stop:
  "queue = [] \<or> seqNum self = - 1 \<Longrightarrow> policyRest self ty queue = queue"
  by (subst policyRest.simps) simp

lemma policyRest_step:
  assumes "queue \<noteq> []" and "seqNum self \<noteq> - 1"
    and "bufAndPaddingPolicy self queue ty (maxRecord self) (aead self) = (d, queue')"
  shows "policyRest self ty queue = policyRest (self\<lparr>seqNum := seqNum self + 1\<rparr>) ty queue'"
  using assms by (subst policyRest.simps) (simp add: prepareBufferWithPadding_def)

lemma write_loop_returns:
  "write_loop self ty options queue outBuf = (r, self') \<Longrightarrow>
   (policyRest self ty queue = []) = (\<exists>out. r = Inr out)"
proof (induction "seqNumsLeft (seqNum self)" arbitrary: self queue outBuf rule: less_induct)
  case less
  from less.prems show ?case
  proof (cases rule: write_loop_cases)
    case finished
    then show ?thesis by (simp add: policyRest_stop)
  next
    case exhausted
    then show ?thesis by (simp add: policyRest_stop)
  next
    case (step d queue')
    let ?self = "self\<lparr>seqNum := seqNum self + 1\<rparr>"
    have less': "seqNumsLeft (seqNum ?self) < seqNumsLeft (seqNum self)"
      using step(5) by simp
    show ?thesis
      using less.hyps [OF less' step(6)]
      by (simp add: policyRest_step [OF step(1) step(2) step(3)])
  qed
qed

lemma wireRecords_nth:
  "i < length ds \<Longrightarrow>
   wireRecords a useAD options s ds ! i =
     recordHeader (length (ds ! i) + getCipherOverhead a)
       @ encrypt a (ds ! i)
           (if useAD then Some (recordHeader (length (ds ! i) + getCipherOverhead a)) else None)
           (s + word_of_nat i) options"
proof (induction ds arbitrary: s i)
  case Nil
  then show ?case by simp
next
  case (Cons d ds)
  show ?case
  proof (cases i)
    case 0
    then show ?thesis by simp
  next
    case (Suc j)
    with Cons.prems have "j < length ds" by simp
    from Cons.IH [OF this, of "s + 1"] Suc show ?thesis
      by (simp add: add.assoc)
  qed
qed

lemma length_wireRecords [simp]: "length (wireRecords a useAD options s ds) = length ds"
  by (induction ds arbitrary: s) simp_all

lemma word_cat_writeBE16:
  "word_cat (ucast (drop_bit 8 w) :: byte) (ucast (w :: 16 word) :: byte) = w"
  by (rule bit_word_eqI) (auto simp: bit_simps)

lemma readLength_recordHeader: "readLength (recordHeader n @ bs) = word_of_nat n"
  by (simp add: readLength_def recordHeader_def word_cat_writeBE16)

text \<open>
  What \<open>write\<close> returns when it returns: the records of the chunks one after the
  other, the content type and the encryption level, and a layer that differs from the
  old one in its sequence number only, which has gone up by the number of chunks.
\<close>

lemma write_msg_data:
  assumes "write_msg self msg options = (Inr content, self')"
  shows "data content
           = concat (wireRecords (aead self) (useAdditionalData self) options (seqNum self)
                       (policyChunks self (type msg) (case fragment msg of None \<Rightarrow> [] | Some b \<Rightarrow> b)))"
    and "contentType content = type msg"
    and "TLSContent.encryptionLevel content = encryptionLevel self"
    and "unat (seqNum self')
           = unat (seqNum self)
             + length (policyChunks self (type msg) (case fragment msg of None \<Rightarrow> [] | Some b \<Rightarrow> b))"
    and "self' = self\<lparr>seqNum := seqNum self' \<rparr>"
proof -
  let ?queue = "case fragment msg of None \<Rightarrow> [] | Some b \<Rightarrow> b"
  obtain r where run: "write_loop self (type msg) options ?queue None = (r, self')"
    using assms by (cases "write_loop self (type msg) options ?queue None")
      (auto simp: write_msg_def split: sum.splits)
  then obtain out where r: "r = Inr out"
    and content: "content = \<lparr>data = (case out of None \<Rightarrow> [] | Some b \<Rightarrow> b),
                     contentType = type msg, encryptionLevel = encryptionLevel self\<rparr>"
    using assms by (cases r) (auto simp: write_msg_def)
  show "data content
           = concat (wireRecords (aead self) (useAdditionalData self) options (seqNum self)
                       (policyChunks self (type msg) ?queue))"
    using write_loop_output [OF run [unfolded r]] content by simp
  show "contentType content = type msg"
    and "TLSContent.encryptionLevel content = encryptionLevel self"
    using content by simp_all
  show "unat (seqNum self') = unat (seqNum self) + length (policyChunks self (type msg) ?queue)"
    by (rule write_loop_seqNum [OF run])
  show "self' = self\<lparr>seqNum := seqNum self' \<rparr>"
    using write_loop_layer [OF run] by simp
qed

text \<open>
  \<open>write\<close> in one equation: the content and the layer when the loop came to the end of
  the queue, the sequence-exhausted error with the sequence number at its maximum
  otherwise.
\<close>

lemma write_msg_total:
  "write_msg self msg options =
     (let queue = (case fragment msg of None \<Rightarrow> [] | Some b \<Rightarrow> b);
          chunks = policyChunks self (type msg) queue
      in if policyRest self (type msg) queue = []
         then (Inr \<lparr>data = concat (wireRecords (aead self) (useAdditionalData self) options
                                     (seqNum self) chunks),
                     contentType = type msg, encryptionLevel = encryptionLevel self\<rparr>,
               self\<lparr>seqNum := seqNum self + word_of_nat (length chunks)\<rparr>)
         else (Inl SequenceExhausted, self\<lparr>seqNum := - 1\<rparr>))"
proof -
  let ?queue = "case fragment msg of None \<Rightarrow> [] | Some b \<Rightarrow> b"
  let ?chunks = "policyChunks self (type msg) ?queue"
  obtain r self' where run: "write_loop self (type msg) options ?queue None = (r, self')"
    by (cases "write_loop self (type msg) options ?queue None") auto
  note layer = write_loop_layer [OF run]
  show ?thesis
  proof (cases "policyRest self (type msg) ?queue = []")
    case True
    with write_loop_returns [OF run] obtain out where r: "r = Inr out" by auto
    have "(case out of None \<Rightarrow> [] | Some b \<Rightarrow> b)
            = concat (wireRecords (aead self) (useAdditionalData self) options (seqNum self) ?chunks)"
      using write_loop_output [OF run [unfolded r]] by simp
    with True run r layer show ?thesis
      by (simp add: write_msg_def Let_def)
  next
    case False
    with write_loop_returns [OF run] obtain e where r: "r = Inl e"
      by (cases r) auto
    from write_loop_error [OF run [unfolded r]] have e: "e = SequenceExhausted"
      and last: "seqNum self' = - 1"
      by simp_all
    have "self' = self\<lparr>seqNum := - 1\<rparr>"
      using layer last by (metis RecordLayer.select_convs(3) RecordLayer.surjective RecordLayer.update_convs(3))
    with False run r e show ?thesis
      by (simp add: write_msg_def Let_def)
  qed
qed

subsection \<open>Need-more-bytes size hints\<close>

lemma feedBytes_read:
  "fst (feedBytes kMax self buf bs options) = fst (read kMax self (buf @ bs) options)
   \<and> fst (snd (feedBytes kMax self buf bs options)) = fst (snd (read kMax self (buf @ bs) options))"
proof (induction bs arbitrary: self buf)
  case Nil
  show ?case by simp
next
  case (Cons b bs)
  obtain r self' buf' where rd: "read kMax self buf options = (r, self', buf')"
    by (cases "read kMax self buf options") auto
  show ?case
  proof (cases "\<exists>h. r = Inr (NoneWithSizeHint h)")
    case True
    then obtain h where r: "r = Inr (NoneWithSizeHint h)" by blast
    have "read kMax self (buf @ b # bs) options = read kMax self' (buf' @ b # bs) options"
      using rd r by (simp add: read_append [of kMax self buf "b # bs"])
    moreover have "feedBytes kMax self buf (b # bs) options
                     = feedBytes kMax self' (buf' @ [b]) bs options"
      using rd r by simp
    ultimately show ?thesis
      using Cons.IH [of self' "buf' @ [b]"] by simp
  next
    case False
    then have "feedBytes kMax self buf (b # bs) options = (r, self', buf')"
      using rd by (cases r) (auto split: ReadResult.splits)
    moreover have "read kMax self (buf @ b # bs) options = (r, self', buf' @ b # bs)"
      using rd False by (cases r) (auto simp: read_append [of kMax self buf "b # bs"] split: ReadResult.splits)
    ultimately show ?thesis by simp
  qed
qed

lemma ex_read_hi: "read 16640 (exReader 7 False) [23, 3, 3, 0, 3, 0x68, 0x16, 7] ()
     = (Inr (From \<lparr>type = 22, fragment = Some [0x68]\<rparr>), exReader 8 False, [])"
  by (simp add: read_def getDecryptedBuf_record ex_defs wire_defs word_cat_eq parseAndRemoveContentType_def Let_def)

text \<open>
  C4, as amended. With fewer than five bytes in the accumulator \<open>read\<close> asks for
  exactly the bytes missing from the header. With the header there, a declared length
  within \<open>kMaxEncryptedRecordSize\<close> and the record not yet whole, it asks for exactly
  the bytes missing from the record. In both cases the layer and the accumulator are
  untouched. Feeding a stream one byte per call ends with the same answer and the same
  layer as one call on the whole stream. Within the header and within the body the hint
  goes down by one with every byte; the claim that it never goes up is what fails, see
  the counterexample below.
\<close>

theorem size_hints:
  "(length buf < kEncryptedHeaderSize \<longrightarrow>
      read kMax self buf options
        = (Inr (NoneWithSizeHint (kEncryptedHeaderSize - length buf)), self, buf))
   \<and> (kEncryptedHeaderSize \<le> length buf \<and> unat (readLength buf) \<le> kMax
        \<and> length buf < kEncryptedHeaderSize + unat (readLength buf) \<longrightarrow>
      read kMax self buf options
        = (Inr (NoneWithSizeHint (kEncryptedHeaderSize + unat (readLength buf) - length buf)),
           self, buf))
   \<and> fst (feedBytes kMax self buf bs options) = fst (read kMax self (buf @ bs) options)
   \<and> fst (snd (feedBytes kMax self buf bs options))
        = fst (snd (read kMax self (buf @ bs) options))"
  using feedBytes_read [of kMax self buf bs options]
  by (simp add: read_def getDecryptedBuf_short getDecryptedBuf_incomplete)

text \<open>
  The theorem at a three-byte and a six-byte accumulator, and at a whole record fed
  byte by byte.
\<close>

theorem size_hints_witness:
  "read 16640 (exReader 7 False) [23, 3, 3] () = (Inr (NoneWithSizeHint 2), exReader 7 False, [23, 3, 3])
   \<and> read 16640 (exReader 7 False) [23, 3, 3, 0, 3, 0x68] ()
       = (Inr (NoneWithSizeHint 2), exReader 7 False, [23, 3, 3, 0, 3, 0x68])
   \<and> fst (feedBytes 16640 (exReader 7 False) [] [23, 3, 3, 0, 3, 0x68, 0x16, 7] ())
       = Inr (From \<lparr>type = 22, fragment = Some [0x68]\<rparr>)
   \<and> fst (snd (feedBytes 16640 (exReader 7 False) [] [23, 3, 3, 0, 3, 0x68, 0x16, 7] ()))
       = exReader 8 False"
  using size_hints [of "[23, 3, 3]" 16640 "exReader 7 False" "()" "[]"]
    size_hints [of "[23, 3, 3, 0, 3, 0x68]" 16640 "exReader 7 False" "()" "[]"]
    size_hints [of "[]" 16640 "exReader 7 False" "()" "[23, 3, 3, 0, 3, 0x68, 0x16, 7]"]
  by (simp add: ex_read_hi kEncryptedHeaderSize_def readLength_def word_cat_eq
        del: feedBytes.simps)

text \<open>
  C4 as stated fails: with four header bytes the hint is 1, with the fifth byte, which
  completes a header that declares three bytes of ciphertext, the hint is 3.
\<close>

theorem size_hint_grows_counterexample:
  "read 16640 (exReader 7 False) [23, 3, 3, 0] ()
     = (Inr (NoneWithSizeHint 1), exReader 7 False, [23, 3, 3, 0])
   \<and> read 16640 (exReader 7 False) [23, 3, 3, 0, 3] ()
     = (Inr (NoneWithSizeHint 3), exReader 7 False, [23, 3, 3, 0, 3])"
  by (simp add: read_def getDecryptedBuf_short getDecryptedBuf_incomplete
        kEncryptedHeaderSize_def readLength_def word_cat_eq)

subsection \<open>Skip-failed-decryption mode\<close>

text \<open>
  C2. The skip flag is set and the sequence number is below its maximum. The accumulator
  starts with two complete records, neither a filler, each with a length within
  \<open>kMaxEncryptedRecordSize\<close>; \<open>tryDecrypt\<close> fails on the first and returns a plaintext
  for the second, both under the current sequence number. Then one call of
  \<open>getDecryptedBuf\<close> returns the plaintext of the second record, has consumed both
  records, has incremented the sequence number once (with no wrap-around) and has
  cleared the flag. And for every accumulator, a call in skip mode that does not return
  a plaintext leaves the layer as it was: the flag stays set and the sequence number
  stays put.
\<close>

theorem skip_failed_decryption:
  assumes skip: "skipFailedDecryption self"
    and seq: "seqNum self \<noteq> - 1"
    and hdrA: "length hdrA = kEncryptedHeaderSize" "hdrA ! 0 \<noteq> change_cipher_spec"
      "unat (readLength hdrA) = length ctA" "length ctA \<le> kMax"
    and hdrB: "length hdrB = kEncryptedHeaderSize" "hdrB ! 0 \<noteq> change_cipher_spec"
      "unat (readLength hdrB) = length ctB" "length ctB \<le> kMax"
    and fails:
      "tryDecrypt (aead self) ctA (if useAdditionalData self then Some hdrA else None)
         (seqNum self) options = None"
    and succeeds:
      "tryDecrypt (aead self) ctB (if useAdditionalData self then Some hdrB else None)
         (seqNum self) options = Some plaintext"
  shows "getDecryptedBuf kMax self (hdrA @ ctA @ hdrB @ ctB @ rest) options
           = (Inr (From plaintext),
              self\<lparr>seqNum := seqNum self + 1, skipFailedDecryption := False\<rparr>, rest)
       \<and> unat (seqNum self + 1) = unat (seqNum self) + 1
       \<and> (case getDecryptedBuf kMax self buf options of
            (Inr (From p), self', buf') \<Rightarrow>
              self' = self\<lparr>seqNum := seqNum self + 1, skipFailedDecryption := False\<rparr>
          | (r, self', buf') \<Rightarrow> self' = self)"
proof -
  have one: "getDecryptedBuf kMax self (hdrA @ ctA @ hdrB @ ctB @ rest) options
               = getDecryptedBuf kMax self (hdrB @ ctB @ rest) options"
    using skip seq fails
    by (simp add: getDecryptedBuf_head [OF hdrA(1,3,4,2)])
  have two: "getDecryptedBuf kMax self (hdrB @ ctB @ rest) options
               = (Inr (From plaintext),
                  self\<lparr>seqNum := seqNum self + 1, skipFailedDecryption := False\<rparr>, rest)"
    using skip seq succeeds
    by (simp add: getDecryptedBuf_head [OF hdrB(1,3,4,2)])
  obtain r self' buf' where g: "getDecryptedBuf kMax self buf options = (r, self', buf')"
    by (cases "getDecryptedBuf kMax self buf options") auto
  have three: "(case getDecryptedBuf kMax self buf options of
            (Inr (From p), self', buf') \<Rightarrow>
              self' = self\<lparr>seqNum := seqNum self + 1, skipFailedDecryption := False\<rparr>
          | (r, self', buf') \<Rightarrow> self' = self)"
    using getDecryptedBuf_state [OF g] skip g
    by (auto split: sum.splits ReadResult.splits if_splits)
  show ?thesis
    using one two three seq by (simp add: unat_seqNum_Suc)
qed

text \<open>
  The theorem on the example AEAD: the tag of the first record is 8 where the sequence
  number is 7.
\<close>

theorem skip_failed_decryption_witness:
  "tryDecrypt exAead [0x68, 0x69, 0x16, 8] (Some [23, 3, 3, 0, 4]) 7 () = None
   \<and> tryDecrypt exAead [0x68, 0x69, 0x16, 7] (Some [23, 3, 3, 0, 4]) 7 () = Some [0x68, 0x69, 0x16]
   \<and> getDecryptedBuf 16640 (exReader 7 True)
        ([23, 3, 3, 0, 4] @ [0x68, 0x69, 0x16, 8] @ [23, 3, 3, 0, 4] @ [0x68, 0x69, 0x16, 7] @ [])
        ()
       = (Inr (From [0x68, 0x69, 0x16]), exReader 8 False, [])"
  using skip_failed_decryption
    [where self = "exReader 7 True" and kMax = 16640 and options = "()" and rest = "[]"
       and hdrA = "[23, 3, 3, 0, 4]" and ctA = "[0x68, 0x69, 0x16, 8]"
       and hdrB = "[23, 3, 3, 0, 4]" and ctB = "[0x68, 0x69, 0x16, 7]"
       and plaintext = "[0x68, 0x69, 0x16]" and buf = "[]"]
  by (simp add: ex_defs wire_defs word_cat_eq)

text \<open>
  C10. The skip flag is set, the sequence number is below its maximum, and the
  accumulator starts with a complete record (not a filler, length within
  \<open>kMaxEncryptedRecordSize\<close>) on which \<open>tryDecrypt\<close> fails. Then the call gives exactly
  the answer, the layer and the accumulator of a call on the bytes behind that record:
  the record is consumed and its failure leaves no trace. When fewer than five bytes
  are behind it, so that it was the only record, the answer is the need for the bytes
  missing from a header, with the layer unchanged (flag still set, sequence number
  unchanged) and the accumulator holding only those bytes.
\<close>

theorem skip_failed_only_record:
  assumes skip: "skipFailedDecryption self"
    and seq: "seqNum self \<noteq> - 1"
    and hdr: "length hdr = kEncryptedHeaderSize" "hdr ! 0 \<noteq> change_cipher_spec"
      "unat (readLength hdr) = length ct" "length ct \<le> kMax"
    and fails:
      "tryDecrypt (aead self) ct (if useAdditionalData self then Some hdr else None)
         (seqNum self) options = None"
  shows "getDecryptedBuf kMax self (hdr @ ct @ rest) options
           = getDecryptedBuf kMax self rest options
       \<and> read kMax self (hdr @ ct @ rest) options = read kMax self rest options
       \<and> (length rest < kEncryptedHeaderSize \<longrightarrow>
            getDecryptedBuf kMax self (hdr @ ct @ rest) options
              = (Inr (NoneWithSizeHint (kEncryptedHeaderSize - length rest)), self, rest)
            \<and> read kMax self (hdr @ ct @ rest) options
              = (Inr (NoneWithSizeHint (kEncryptedHeaderSize - length rest)), self, rest))"
proof -
  have consumed: "getDecryptedBuf kMax self (hdr @ ct @ rest) options
                    = getDecryptedBuf kMax self rest options"
    using skip seq fails by (simp add: getDecryptedBuf_head [OF hdr(1,3,4,2)])
  then have "read kMax self (hdr @ ct @ rest) options = read kMax self rest options"
    by (simp add: read_def)
  with consumed show ?thesis
    by (simp add: read_def getDecryptedBuf_short)
qed

text \<open>
  The theorem on the example AEAD, with two bytes behind the failing record.
\<close>

theorem skip_failed_only_record_witness:
  "tryDecrypt exAead [0x68, 0x69, 0x16, 8] (Some [23, 3, 3, 0, 4]) 7 () = None
   \<and> read 16640 (exReader 7 True) ([23, 3, 3, 0, 4] @ [0x68, 0x69, 0x16, 8] @ [23, 3]) ()
       = (Inr (NoneWithSizeHint 3), exReader 7 True, [23, 3])
   \<and> skipFailedDecryption (exReader 7 True) \<and> seqNum (exReader 7 True) = 7"
proof -
  have hyps: "skipFailedDecryption (exReader 7 True)" "seqNum (exReader 7 True) \<noteq> - 1"
    "length [23 :: byte, 3, 3, 0, 4] = kEncryptedHeaderSize"
    "[23 :: byte, 3, 3, 0, 4] ! 0 \<noteq> change_cipher_spec"
    "unat (readLength [23, 3, 3, 0, 4]) = length [0x68 :: byte, 0x69, 0x16, 8]"
    "length [0x68 :: byte, 0x69, 0x16, 8] \<le> 16640"
    "tryDecrypt (aead (exReader 7 True)) [0x68, 0x69, 0x16, 8]
       (if useAdditionalData (exReader 7 True) then Some [23, 3, 3, 0, 4] else None)
       (seqNum (exReader 7 True)) () = None"
    by (simp_all add: ex_defs wire_defs word_cat_eq)
  note inst =
    skip_failed_only_record [where rest = "[23, 3]", OF hyps,
      THEN conjunct2, THEN conjunct2, THEN mp, THEN conjunct2]
  have "read 16640 (exReader 7 True) ([23, 3, 3, 0, 4] @ [0x68, 0x69, 0x16, 8] @ [23, 3]) ()
          = (Inr (NoneWithSizeHint (kEncryptedHeaderSize - length [23 :: byte, 3])),
             exReader 7 True, [23, 3])"
    by (rule inst) (simp add: kEncryptedHeaderSize_def)
  then show ?thesis
    by (simp add: ex_defs kEncryptedHeaderSize_def)
qed

subsection \<open>Sequence number exhaustion\<close>

text \<open>
  C3, as amended. When the read sequence number is at its maximum and the accumulator
  starts with a complete record that is not a filler (length within
  \<open>kMaxEncryptedRecordSize\<close>), \<open>read\<close> throws the sequence-exhausted error with the layer
  unchanged, and with that record taken off the accumulator: the record is parsed and
  consumed before the sequence number is checked. When the write sequence number is at
  its maximum, \<open>write\<close> of a non-empty payload throws the same error with the layer
  unchanged and no content returned.
\<close>

theorem sequence_exhausted:
  "(kEncryptedHeaderSize \<le> length buf \<and> unat (readLength buf) \<le> kMax
      \<and> kEncryptedHeaderSize + unat (readLength buf) \<le> length buf
      \<and> buf ! 0 \<noteq> change_cipher_spec \<and> seqNum self = - 1 \<longrightarrow>
    read kMax self buf options
      = (Inl SequenceExhausted, self, drop (kEncryptedHeaderSize + unat (readLength buf)) buf))
   \<and> (fragment msg = Some payload \<and> payload \<noteq> [] \<and> seqNum writer = - 1 \<longrightarrow>
      write_msg writer msg options = (Inl SequenceExhausted, writer))"
  by (simp add: read_def getDecryptedBuf_record write_msg_def write_loop_exhausted Let_def)

text \<open>
  The theorem on the example layers.
\<close>

theorem sequence_exhausted_witness:
  "read 16640 (exReader (- 1) False) [23, 3, 3, 0, 1, 0xAA, 23, 3] ()
     = (Inl SequenceExhausted, exReader (- 1) False, [23, 3])
   \<and> write_msg (exWriter (- 1) 2) \<lparr>type = handshake, fragment = Some [1, 2, 3]\<rparr> ()
     = (Inl SequenceExhausted, exWriter (- 1) 2)"
  using sequence_exhausted
    [where self = "exReader (- 1) False" and kMax = 16640 and options = "()"
       and buf = "[23, 3, 3, 0, 1, 0xAA, 23, 3]" and writer = "exWriter (- 1) 2"
       and msg = "\<lparr>type = handshake, fragment = Some [1, 2, 3]\<rparr>" and payload = "[1, 2, 3]"]
  by (simp add: ex_defs wire_defs word_cat_eq)

text \<open>
  C3 as stated fails: the accumulator held the six bytes of one record before the call
  and is empty after it.
\<close>

theorem sequence_exhausted_consumes_counterexample:
  "read 16640 (exReader (- 1) False) [23, 3, 3, 0, 1, 0xAA] ()
     = (Inl SequenceExhausted, exReader (- 1) False, [])"
  by (simp add: read_def getDecryptedBuf_record ex_defs wire_defs word_cat_eq Let_def)

subsection \<open>Oversized records\<close>

text \<open>
  C5. A buffer that holds at least the five header bytes and whose length field, bytes
  3 and 4 read big-endian, exceeds \<open>kMaxEncryptedRecordSize\<close> makes \<open>getDecryptedBuf\<close> and
  \<open>read\<close> throw the oversized-record error at once: whatever the AEAD is, whether or not
  the ciphertext has arrived, and with the layer (its sequence number and its skip
  flag) and the accumulator left as they were, so nothing was parsed or decrypted.
\<close>

theorem oversized_record_rejected:
  assumes "kEncryptedHeaderSize \<le> length buf"
    and "kMax < unat (readLength buf)"
  shows "getDecryptedBuf kMax self buf options = (Inl OversizedRecord, self, buf)
       \<and> read kMax self buf options = (Inl OversizedRecord, self, buf)"
  using assms by (simp add: read_def getDecryptedBuf_oversized)

theorem oversized_record_rejected_witness:
  "getDecryptedBuf 16640 (exReader 7 False) [23, 3, 3, 0xFF, 0xFE, 1, 2] ()
     = (Inl OversizedRecord, exReader 7 False, [23, 3, 3, 0xFF, 0xFE, 1, 2])
   \<and> read 16640 (exReader 7 False) [23, 3, 3, 0xFF, 0xFE, 1, 2] ()
     = (Inl OversizedRecord, exReader 7 False, [23, 3, 3, 0xFF, 0xFE, 1, 2])"
  using oversized_record_rejected
    [of "[23, 3, 3, 0xFF, 0xFE, 1, 2]" 16640 "exReader 7 False" "()"]
  by (simp add: kEncryptedHeaderSize_def readLength_def word_cat_eq)

subsection \<open>Empty payloads\<close>

text \<open>
  The inner plaintext is the payload, the content type byte and zero padding; a
  content type is never zero.
\<close>

lemma dropWhile_padding:
  "dropWhile (\<lambda>b. b = 0) (replicate pad (0 :: byte) @ xs) = dropWhile (\<lambda>b. b = 0) xs"
  by (induction pad) simp_all

lemma parseAndRemoveContentType_padded:
  "ty \<noteq> 0 \<Longrightarrow> parseAndRemoveContentType (payload @ ty # replicate pad 0) = Some (ty, payload)"
  by (simp add: parseAndRemoveContentType_def dropWhile_padding)

text \<open>
  C8, as amended. \<open>write\<close> of a message whose fragment is null or empty returns a
  content with no bytes, the message's content type and the layer's encryption level,
  and leaves the layer (its sequence number) as it was; this does not depend on the
  sequence number, so it does not fail at the maximum either. Such a message does not
  come back: \<open>read\<close> on the bytes written, which are none, asks for the five bytes of
  a header. The empty payload is a matter of the read side alone: a record that decrypts
  to nothing but the \<open>application_data\<close> type byte and padding is returned as an
  \<open>application_data\<close> message whose fragment is the empty buffer, not a null one; with
  the \<open>handshake\<close> or \<open>alert\<close> type byte instead, \<open>read\<close> throws the empty-fragment
  error.
\<close>

theorem empty_payload:
  "((fragment msg = None \<or> fragment msg = Some []) \<longrightarrow>
      write_msg self msg options
        = (Inr \<lparr>data = [], contentType = type msg, encryptionLevel = encryptionLevel self\<rparr>, self)
      \<and> (case write_msg self msg options of
            (Inr content, writer') \<Rightarrow>
              read kMax reader (data content) options
                = (Inr (NoneWithSizeHint kEncryptedHeaderSize), reader, [])
          | (Inl e, writer') \<Rightarrow> False))
   \<and> (getDecryptedBuf kMax reader buf options
         = (Inr (From (application_data # replicate pad 0)), reader', buf') \<longrightarrow>
      read kMax reader buf options
        = (Inr (From \<lparr>type = application_data, fragment = Some []\<rparr>), reader', buf'))
   \<and> (getDecryptedBuf kMax reader buf options = (Inr (From (ty # replicate pad 0)), reader', buf')
        \<and> (ty = handshake \<or> ty = alert) \<longrightarrow>
      read kMax reader buf options = (Inl EmptyFragment, reader', buf'))"
proof -
  have padded: "ty' \<noteq> 0 \<Longrightarrow> parseAndRemoveContentType (ty' # replicate pad 0) = Some (ty', [])"
    for ty'
    using parseAndRemoveContentType_padded [of ty' "[]" pad] by simp
  have no_bytes: "read kMax reader [] options
                   = (Inr (NoneWithSizeHint kEncryptedHeaderSize), reader, [])"
    by (simp add: read_def getDecryptedBuf_short kEncryptedHeaderSize_def)
  have written: "(fragment msg = None \<or> fragment msg = Some []) \<longrightarrow>
      write_msg self msg options
        = (Inr \<lparr>data = [], contentType = type msg, encryptionLevel = encryptionLevel self\<rparr>, self)
      \<and> (case write_msg self msg options of
            (Inr content, writer') \<Rightarrow>
              read kMax reader (data content) options
                = (Inr (NoneWithSizeHint kEncryptedHeaderSize), reader, [])
          | (Inl e, writer') \<Rightarrow> False)"
  proof
    assume "fragment msg = None \<or> fragment msg = Some []"
    then have w: "write_msg self msg options
        = (Inr \<lparr>data = [], contentType = type msg, encryptionLevel = encryptionLevel self\<rparr>, self)"
      by (auto simp: write_msg_def write_loop_Nil)
    show "write_msg self msg options
        = (Inr \<lparr>data = [], contentType = type msg, encryptionLevel = encryptionLevel self\<rparr>, self)
      \<and> (case write_msg self msg options of
            (Inr content, writer') \<Rightarrow>
              read kMax reader (data content) options
                = (Inr (NoneWithSizeHint kEncryptedHeaderSize), reader, [])
          | (Inl e, writer') \<Rightarrow> False)"
      unfolding w using no_bytes by simp
  qed
  have app: "getDecryptedBuf kMax reader buf options
         = (Inr (From (application_data # replicate pad 0)), reader', buf') \<longrightarrow>
      read kMax reader buf options
        = (Inr (From \<lparr>type = application_data, fragment = Some []\<rparr>), reader', buf')"
    by (simp add: read_def padded application_data_def)
  have other: "getDecryptedBuf kMax reader buf options
         = (Inr (From (ty # replicate pad 0)), reader', buf')
        \<and> (ty = handshake \<or> ty = alert) \<longrightarrow>
      read kMax reader buf options = (Inl EmptyFragment, reader', buf')"
    by (auto simp: read_def padded handshake_def alert_def application_data_def)
  from written app other show ?thesis by blast
qed

text \<open>
  The theorem on the example layers: an empty handshake message written, and records
  read whose plaintexts are the bytes 23 0 and 22 0.
\<close>

theorem empty_payload_witness:
  "write_msg (exWriter 7 2) \<lparr>type = handshake, fragment = Some []\<rparr> ()
     = (Inr \<lparr>data = [], contentType = handshake, encryptionLevel = AppTraffic\<rparr>, exWriter 7 2)
   \<and> read 16640 (exReader 7 False) [23, 3, 3, 0, 3, 23, 0, 7] ()
     = (Inr (From \<lparr>type = application_data, fragment = Some []\<rparr>), exReader 8 False, [])
   \<and> read 16640 (exReader 7 False) [23, 3, 3, 0, 3, 22, 0, 7] ()
     = (Inl EmptyFragment, exReader 8 False, [])"
proof -
  have plain: "getDecryptedBuf 16640 (exReader 7 False) [23, 3, 3, 0, 3, t, 0, 7] ()
                 = (Inr (From (t # replicate 1 0)), exReader 8 False, [])" for t
    by (simp add: getDecryptedBuf_record ex_defs wire_defs word_cat_eq Let_def)
  note w = empty_payload
    [where msg = "\<lparr>type = handshake, fragment = Some []\<rparr>" and self = "exWriter 7 2"
       and options = "()" and kMax = 16640 and reader = "exReader 7 False" and pad = 1
       and reader' = "exReader 8 False" and buf' = "[]"]
  have "write_msg (exWriter 7 2) \<lparr>type = handshake, fragment = Some []\<rparr> ()
     = (Inr \<lparr>data = [], contentType = handshake, encryptionLevel = AppTraffic\<rparr>, exWriter 7 2)"
    using w [THEN conjunct1] by (simp add: exWriter_def)
  moreover have "read 16640 (exReader 7 False) [23, 3, 3, 0, 3, 23, 0, 7] ()
     = (Inr (From \<lparr>type = application_data, fragment = Some []\<rparr>), exReader 8 False, [])"
    using w [where buf = "[23, 3, 3, 0, 3, 23, 0, 7]", THEN conjunct2, THEN conjunct1]
      plain [of 23]
    by (simp add: application_data_def)
  moreover have "read 16640 (exReader 7 False) [23, 3, 3, 0, 3, 22, 0, 7] ()
     = (Inl EmptyFragment, exReader 8 False, [])"
    using w [where buf = "[23, 3, 3, 0, 3, 22, 0, 7]" and ty = handshake,
              THEN conjunct2, THEN conjunct2]
      plain [of 22]
    by (simp add: handshake_def)
  ultimately show ?thesis by simp
qed

text \<open>
  C8 as stated fails: an \<open>application_data\<close> message with an empty payload does not
  round-trip to an empty payload. \<open>write\<close> returns no bytes for it, and \<open>read\<close> on no
  bytes returns the need for five more, not a message.
\<close>

theorem empty_payload_no_round_trip_counterexample:
  "write_msg (exWriter 3 16) \<lparr>type = application_data, fragment = Some []\<rparr> ()
     = (Inr \<lparr>data = [], contentType = application_data, encryptionLevel = AppTraffic\<rparr>,
        exWriter 3 16)
   \<and> read 16640 (exReader 3 False) [] () = (Inr (NoneWithSizeHint 5), exReader 3 False, [])"
  by (simp add: write_msg_def write_loop_Nil read_def getDecryptedBuf_short
        kEncryptedHeaderSize_def ex_defs)

subsection \<open>Sequence number increments\<close>

text \<open>
  The example writer on a three-byte handshake payload cut into chunks of two bytes.
\<close>

lemma ex_policyChunks:
  "policyChunks (exWriter 7 2) handshake [1, 2, 3] = [[1, 2, 22, 0], [3, 22, 0]]"
  by (simp add: policyChunks.simps prepareBufferWithPadding_def ex_defs handshake_def)

lemma ex_policyRest: "policyRest (exWriter 7 2) handshake [1, 2, 3] = []"
  by (simp add: policyRest.simps prepareBufferWithPadding_def ex_defs handshake_def)

lemma ex_write:
  "write_msg (exWriter 7 2) \<lparr>type = handshake, fragment = Some [1, 2, 3]\<rparr> ()
     = (Inr \<lparr>data = [23, 3, 3, 0, 5, 1, 2, 22, 0, 7, 23, 3, 3, 0, 4, 3, 22, 0, 8],
             contentType = handshake, encryptionLevel = AppTraffic\<rparr>,
        exWriter 9 2)"
  by (simp add: write_msg_def write_loop.simps prepareBufferWithPadding_def
        writeEncryptedRecord_def ex_defs wire_defs)

text \<open>
  C6, as amended. A call of \<open>getDecryptedBuf\<close> or \<open>read\<close> that returns a plaintext or a
  message has decrypted exactly one record and has incremented the read sequence number
  by exactly one, with no wrap-around; a call that asks for more bytes, or that throws
  the oversized-record or the sequence-exhausted error, leaves it unchanged, however
  many fillers and failed records of skip mode it has gone through. A filler record,
  and in skip mode a record on which \<open>tryDecrypt\<close> fails, is dropped with the layer
  untouched: the call goes on as a call on the bytes behind it. A call of \<open>read\<close> that throws after the decryption (malformed
  padding, unexpected content type, empty fragment) has incremented the number once,
  for the record it decrypted. The exception is \<open>decrypt\<close> failing in normal mode: the
  authentication error leaves the sequence number incremented by one, since
  \<^verbatim>\<open>seqNum_++\<close> is evaluated as an argument of the call that throws. \<open>write\<close> increments
  the write sequence number by exactly one per chunk drawn from the policy, that is per
  record built, whether it returns them (as the concatenation of the records) or
  throws the sequence-exhausted error at the maximum.
\<close>

theorem sequence_number_steps:
  "(getDecryptedBuf kMax self buf options = (r, self', buf') \<longrightarrow>
      unat (seqNum self')
        = unat (seqNum self)
          + (case r of
               Inr (From p) \<Rightarrow> 1
             | Inr (NoneWithSizeHint h) \<Rightarrow> 0
             | Inl e \<Rightarrow> if e = AuthenticationFailed then 1 else 0))
   \<and> (read kMax self buf options = (rm, selfm, bufm) \<longrightarrow>
      unat (seqNum selfm)
        = unat (seqNum self)
          + (case rm of
               Inr (From m) \<Rightarrow> 1
             | Inr (NoneWithSizeHint h) \<Rightarrow> 0
             | Inl e \<Rightarrow> if e = OversizedRecord \<or> e = SequenceExhausted then 0 else 1))
   \<and> (length hdr = kEncryptedHeaderSize \<and> unat (readLength hdr) = length ct \<and> length ct \<le> kMax
        \<and> (hdr ! 0 = change_cipher_spec
             \<or> seqNum self \<noteq> - 1 \<and> skipFailedDecryption self
               \<and> tryDecrypt (aead self) ct (if useAdditionalData self then Some hdr else None)
                     (seqNum self) options = None) \<longrightarrow>
      getDecryptedBuf kMax self (hdr @ ct @ rest) options
        = getDecryptedBuf kMax self rest options)
   \<and> (write_msg writer msg options = (w, writer') \<longrightarrow>
      unat (seqNum writer')
        = unat (seqNum writer)
          + length (policyChunks writer (type msg)
                      (case fragment msg of None \<Rightarrow> [] | Some b \<Rightarrow> b))
      \<and> (case w of
            Inr content \<Rightarrow>
              data content
                = concat (wireRecords (aead writer) (useAdditionalData writer) options
                            (seqNum writer)
                            (policyChunks writer (type msg)
                               (case fragment msg of None \<Rightarrow> [] | Some b \<Rightarrow> b)))
          | Inl e \<Rightarrow> e = SequenceExhausted \<and> seqNum writer' = - 1))"
proof -
  have pipeline: "unat (seqNum s')
        = unat (seqNum self)
          + (case x of
               Inr (From p) \<Rightarrow> 1
             | Inr (NoneWithSizeHint h) \<Rightarrow> 0
             | Inl e \<Rightarrow> if e = AuthenticationFailed then 1 else 0)"
    if "getDecryptedBuf kMax self buf options = (x, s', b')" for x s' b'
    using getDecryptedBuf_state [OF that]
    by (auto simp: unat_seqNum_Suc split: sum.splits ReadResult.splits if_splits)
  have reader: "unat (seqNum selfm)
        = unat (seqNum self)
          + (case rm of
               Inr (From m) \<Rightarrow> 1
             | Inr (NoneWithSizeHint h) \<Rightarrow> 0
             | Inl e \<Rightarrow> if e = OversizedRecord \<or> e = SequenceExhausted then 0 else 1)"
    if rd: "read kMax self buf options = (rm, selfm, bufm)"
  proof -
    obtain x s' b' where g: "getDecryptedBuf kMax self buf options = (x, s', b')"
      by (cases "getDecryptedBuf kMax self buf options") auto
    from rd g have same: "selfm = s'"
      by (auto simp: read_def Let_def split: sum.splits ReadResult.splits option.splits if_splits)
    from rd g getDecryptedBuf_state [OF g] show ?thesis
      unfolding same
      by (auto simp: read_def Let_def unat_seqNum_Suc
            split: sum.splits ReadResult.splits option.splits if_splits)
  qed
  have discard: "getDecryptedBuf kMax self (hdr @ ct @ rest) options
        = getDecryptedBuf kMax self rest options"
    if "length hdr = kEncryptedHeaderSize" "unat (readLength hdr) = length ct" "length ct \<le> kMax"
      "hdr ! 0 = change_cipher_spec
         \<or> seqNum self \<noteq> - 1 \<and> skipFailedDecryption self
           \<and> tryDecrypt (aead self) ct (if useAdditionalData self then Some hdr else None)
                 (seqNum self) options = None"
  proof (cases "hdr ! 0 = change_cipher_spec")
    case True
    with that show ?thesis by (simp add: getDecryptedBuf_head_filler)
  next
    case False
    with that show ?thesis by (simp add: getDecryptedBuf_head)
  qed
  have writer: "unat (seqNum writer')
        = unat (seqNum writer)
          + length (policyChunks writer (type msg)
                      (case fragment msg of None \<Rightarrow> [] | Some b \<Rightarrow> b))
      \<and> (case w of
            Inr content \<Rightarrow>
              data content
                = concat (wireRecords (aead writer) (useAdditionalData writer) options
                            (seqNum writer)
                            (policyChunks writer (type msg)
                               (case fragment msg of None \<Rightarrow> [] | Some b \<Rightarrow> b)))
          | Inl e \<Rightarrow> e = SequenceExhausted \<and> seqNum writer' = - 1)"
    if wr: "write_msg writer msg options = (w, writer')"
  proof (cases w)
    case (Inr content)
    with wr write_msg_data(1,4) [of writer msg options content writer'] show ?thesis
      by simp
  next
    case (Inl e)
    let ?queue = "case fragment msg of None \<Rightarrow> [] | Some b \<Rightarrow> b"
    from wr Inl have run: "write_loop writer (type msg) options ?queue None = (Inl e, writer')"
      by (auto simp: write_msg_def split: prod.splits sum.splits)
    from write_loop_seqNum [OF run] write_loop_error [OF run] Inl show ?thesis
      by simp
  qed
  from pipeline reader discard writer show ?thesis by blast
qed

text \<open>
  The theorem on the example layers: a record read, a filler and a failing record of
  skip mode dropped, two records written.
\<close>

theorem sequence_number_steps_witness:
  "unat (seqNum (exReader 8 False)) = unat (seqNum (exReader 7 False)) + 1
   \<and> getDecryptedBuf 16640 (exReader 7 True) ([20, 3, 3, 0, 1] @ [1] @ [23, 3]) ()
       = getDecryptedBuf 16640 (exReader 7 True) [23, 3] ()
   \<and> getDecryptedBuf 16640 (exReader 7 True) ([23, 3, 3, 0, 1] @ [9] @ [23, 3]) ()
       = getDecryptedBuf 16640 (exReader 7 True) [23, 3] ()
   \<and> unat (seqNum (exWriter 9 2)) = unat (seqNum (exWriter 7 2)) + 2"
proof -
  note steps = sequence_number_steps [where kMax = 16640 and options = "()"]
  have "unat (seqNum (exReader 8 False)) = unat (seqNum (exReader 7 False)) + 1"
    using steps [where self = "exReader 7 False", THEN conjunct2, THEN conjunct1, THEN mp,
                 OF ex_read_hi]
    by simp
  moreover have "getDecryptedBuf 16640 (exReader 7 True) ([20, 3, 3, 0, 1] @ [1] @ [23, 3]) ()
       = getDecryptedBuf 16640 (exReader 7 True) [23, 3] ()"
    by (rule steps [THEN conjunct2, THEN conjunct2, THEN conjunct1, THEN mp])
       (simp add: wire_defs word_cat_eq)
  moreover have "getDecryptedBuf 16640 (exReader 7 True) ([23, 3, 3, 0, 1] @ [9] @ [23, 3]) ()
       = getDecryptedBuf 16640 (exReader 7 True) [23, 3] ()"
    by (rule steps [THEN conjunct2, THEN conjunct2, THEN conjunct1, THEN mp])
       (simp add: wire_defs word_cat_eq ex_defs)
  moreover have "unat (seqNum (exWriter 9 2)) = unat (seqNum (exWriter 7 2)) + 2"
    using steps [THEN conjunct2, THEN conjunct2, THEN conjunct2, THEN mp, OF ex_write,
                 THEN conjunct1]
    by (simp add: ex_policyChunks)
  ultimately show ?thesis by blast
qed

text \<open>
  C6 as stated fails: in normal mode a record that does not authenticate (tag 8 under
  sequence number 7) makes \<open>read\<close> throw with the sequence number at 8, though no record
  was decrypted.
\<close>

theorem failed_decrypt_increments_counterexample:
  "read 16640 (exReader 7 False) [23, 3, 3, 0, 4, 0x68, 0x69, 0x16, 8] ()
     = (Inl AuthenticationFailed, exReader 8 False, [])"
  by (simp add: read_def getDecryptedBuf_record ex_defs wire_defs word_cat_eq Let_def)

subsection \<open>The records that write emits\<close>

lemma wireRecords_map:
  "wireRecords a useAD options s ds =
     map (\<lambda>i. recordHeader (length (ds ! i) + getCipherOverhead a)
               @ encrypt a (ds ! i)
                   (if useAD then Some (recordHeader (length (ds ! i) + getCipherOverhead a))
                    else None)
                   (s + word_of_nat i) options)
       [0..<length ds]"
  by (rule nth_equalityI) (simp_all add: wireRecords_nth)

lemma recordHeader_bytes:
  "recordHeader n =
     [application_data, ucast (drop_bit 8 tls_1_2), ucast tls_1_2,
      ucast (drop_bit 8 (word_of_nat n :: 16 word)), ucast (word_of_nat n :: 16 word)]"
  by (simp add: recordHeader_def application_data_def tls_1_2_def)

lemma length_recordHeader [simp]: "length (recordHeader n) = kEncryptedHeaderSize"
  by (simp add: recordHeader_def kEncryptedHeaderSize_def)

lemma unat_length16: "unat (word_of_nat n :: 16 word) = n mod 2 ^ 16"
  by (simp add: unat_of_nat)

text \<open>
  C7, as amended. \<open>write\<close> returns exactly when its loop comes to the end of the queue
  before the sequence number reaches its maximum, and throws the sequence-exhausted
  error otherwise. When it returns, its wire bytes are the records of the chunks the
  policy returned, in the order the loop drew them, and nothing else, and the sequence
  number has gone up by the number of records. The record of the \<open>i\<close>-th chunk is a
  header of five bytes followed by the AEAD's ciphertext of the chunk under the \<open>i\<close>-th
  sequence number from the one the call started with (with the header as associated
  data when the layer uses it). The header's first byte is \<open>application_data\<close> whatever
  the type of the message, its next two bytes are the 16-bit \<open>tls_1_2\<close> tag, high byte
  first, and its last two bytes are, high byte first, the chunk's length plus the cipher
  overhead cast to 16 bits: the sum modulo \<open>2 ^ 16\<close>, which is the sum itself when the
  sum is below \<open>2 ^ 16\<close>. That the field always equals the sum is what fails, see the
  counterexample below.
\<close>

theorem written_record_format:
  "let queue = (case fragment msg of None \<Rightarrow> [] | Some b \<Rightarrow> b);
       chunks = policyChunks self (type msg) queue;
       total = (\<lambda>i. length (chunks ! i) + getCipherOverhead (aead self));
       len = (\<lambda>i. word_of_nat (total i) :: 16 word);
       hdr = (\<lambda>i. [application_data, ucast (drop_bit 8 tls_1_2), ucast tls_1_2,
                    ucast (drop_bit 8 (len i)), ucast (len i)])
   in write_msg self msg options
        = (if policyRest self (type msg) queue = []
           then (Inr \<lparr>data = concat (map (\<lambda>i. hdr i
                                               @ encrypt (aead self) (chunks ! i)
                                                   (if useAdditionalData self then Some (hdr i)
                                                    else None)
                                                   (seqNum self + word_of_nat i) options)
                                       [0..<length chunks]),
                       contentType = type msg, encryptionLevel = encryptionLevel self\<rparr>,
                 self\<lparr>seqNum := seqNum self + word_of_nat (length chunks)\<rparr>)
           else (Inl SequenceExhausted, self\<lparr>seqNum := - 1\<rparr>))
      \<and> (\<forall>i<length chunks.
            length (hdr i) = kEncryptedHeaderSize
            \<and> readLength (hdr i) = len i
            \<and> unat (readLength (hdr i)) = total i mod 2 ^ 16
            \<and> (total i < 2 ^ 16 \<longrightarrow> unat (readLength (hdr i)) = total i))"
proof -
  let ?queue = "case fragment msg of None \<Rightarrow> [] | Some b \<Rightarrow> b"
  let ?chunks = "policyChunks self (type msg) ?queue"
  let ?n = "\<lambda>i. length (?chunks ! i) + getCipherOverhead (aead self)"
  have len: "readLength (recordHeader n) = word_of_nat n" for n
    using readLength_recordHeader [of n "[]"] by simp
  have main: "write_msg self msg options
        = (if policyRest self (type msg) ?queue = []
           then (Inr \<lparr>data = concat (map (\<lambda>i. recordHeader (?n i)
                                               @ encrypt (aead self) (?chunks ! i)
                                                   (if useAdditionalData self
                                                    then Some (recordHeader (?n i))
                                                    else None)
                                                   (seqNum self + word_of_nat i) options)
                                       [0..<length ?chunks]),
                       contentType = type msg, encryptionLevel = encryptionLevel self\<rparr>,
                 self\<lparr>seqNum := seqNum self + word_of_nat (length ?chunks)\<rparr>)
           else (Inl SequenceExhausted, self\<lparr>seqNum := - 1\<rparr>))
      \<and> (\<forall>i<length ?chunks.
            length (recordHeader (?n i)) = kEncryptedHeaderSize
            \<and> readLength (recordHeader (?n i)) = word_of_nat (?n i)
            \<and> unat (readLength (recordHeader (?n i))) = ?n i mod 2 ^ 16
            \<and> (?n i < 2 ^ 16 \<longrightarrow> unat (readLength (recordHeader (?n i))) = ?n i))"
    by (simp only: write_msg_total [of self msg options] Let_def wireRecords_map len
          unat_length16 length_recordHeader) simp
  show ?thesis
    unfolding Let_def recordHeader_bytes [symmetric] by (rule main)
qed

text \<open>
  The theorem on the example writer: two records, with length fields 5 and 4.
\<close>

theorem written_record_format_witness:
  "policyChunks (exWriter 7 2) handshake [1, 2, 3] = [[1, 2, 22, 0], [3, 22, 0]]
   \<and> policyRest (exWriter 7 2) handshake [1, 2, 3] = []
   \<and> write_msg (exWriter 7 2) \<lparr>type = handshake, fragment = Some [1, 2, 3]\<rparr> ()
       = (Inr \<lparr>data = ([application_data, 3, 3, 0, 5]
                          @ encrypt exAead [1, 2, 22, 0] (Some [application_data, 3, 3, 0, 5]) 7 ())
                       @ ([application_data, 3, 3, 0, 4]
                          @ encrypt exAead [3, 22, 0] (Some [application_data, 3, 3, 0, 4]) 8 ()),
               contentType = handshake, encryptionLevel = AppTraffic\<rparr>,
          exWriter 9 2)
   \<and> unat (readLength [application_data, 3, 3, 0, 5]) = 5
   \<and> unat (readLength [application_data, 3, 3, 0, 4]) = 4"
  using written_record_format
    [where self = "exWriter 7 2" and options = "()"
       and msg = "\<lparr>type = handshake, fragment = Some [1, 2, 3]\<rparr>"]
  by (simp add: ex_policyChunks ex_policyRest Let_def)
     (simp add: ex_defs wire_defs word_cat_eq upt_rec)

text \<open>
  C7 as stated fails: the policy of the example writer returns, for a payload of 65534
  bytes and a maximum record size of 65535, a chunk of 65536 bytes; with the overhead
  of one byte the sum is 65537, and the length field of the record written holds 1
  (bytes \<open>0\<close> and \<open>1\<close>).
\<close>

theorem written_length_truncated_counterexample:
  "write_msg (exWriter 7 65535) \<lparr>type = handshake, fragment = Some (replicate 65534 1)\<rparr> ()
     = (Inr \<lparr>data = [23, 3, 3, 0, 1] @ replicate 65534 1 @ [22, 0, 7],
             contentType = handshake, encryptionLevel = AppTraffic\<rparr>,
        exWriter 8 65535)
   \<and> policyChunks (exWriter 7 65535) handshake (replicate 65534 1) = [replicate 65534 1 @ [22, 0]]
   \<and> length (replicate 65534 (1 :: byte) @ [22, 0]) + getCipherOverhead exAead = 65537
   \<and> unat (readLength ([23, 3, 3, 0, 1] @ replicate 65534 1 @ [22, 0, 7])) = 1"
  by (simp add: write_msg_def write_loop.simps policyChunks.simps prepareBufferWithPadding_def
        writeEncryptedRecord_def ex_defs wire_defs word_cat_eq)

subsection \<open>The bound on the emitted length field\<close>

text \<open>
  C9, as amended. \<open>write\<close> makes no check of its own on the length it writes into a
  header. When every chunk that the policy returned during the call, with the cipher
  overhead added, is within \<open>kMaxEncryptedRecordSize\<close> (itself below \<open>2 ^ 16\<close>), then the
  length field of every record emitted is within \<open>kMaxEncryptedRecordSize\<close>.
\<close>

theorem emitted_length_bound:
  assumes written: "write_msg self msg options = (Inr content, self')"
    and bounded:
      "\<forall>d \<in> set (policyChunks self (type msg) (case fragment msg of None \<Rightarrow> [] | Some b \<Rightarrow> b)).
         length d + getCipherOverhead (aead self) \<le> kMax"
    and kMax: "kMax < 2 ^ 16"
  shows "data content
           = concat (wireRecords (aead self) (useAdditionalData self) options (seqNum self)
                       (policyChunks self (type msg)
                          (case fragment msg of None \<Rightarrow> [] | Some b \<Rightarrow> b)))
       \<and> (\<forall>r \<in> set (wireRecords (aead self) (useAdditionalData self) options (seqNum self)
                        (policyChunks self (type msg)
                           (case fragment msg of None \<Rightarrow> [] | Some b \<Rightarrow> b))).
             kEncryptedHeaderSize \<le> length r \<and> unat (readLength r) \<le> kMax)"
proof -
  let ?chunks = "policyChunks self (type msg) (case fragment msg of None \<Rightarrow> [] | Some b \<Rightarrow> b)"
  let ?recs = "wireRecords (aead self) (useAdditionalData self) options (seqNum self) ?chunks"
  have "kEncryptedHeaderSize \<le> length r \<and> unat (readLength r) \<le> kMax" if "r \<in> set ?recs" for r
  proof -
    from that obtain i where i: "i < length ?chunks" and r: "r = ?recs ! i"
      by (auto simp: in_set_conv_nth)
    let ?n = "length (?chunks ! i) + getCipherOverhead (aead self)"
    have n: "?n \<le> kMax"
      using bounded i by simp
    then have "?n mod 2 ^ 16 = ?n"
      using kMax by simp
    with n have "unat (word_of_nat ?n :: 16 word) \<le> kMax"
      by (simp only: unat_length16)
    then show ?thesis
      unfolding r wireRecords_nth [OF i] by (simp add: readLength_recordHeader)
  qed
  with write_msg_data(1) [OF written] show ?thesis by blast
qed

text \<open>
  The theorem on the example writer, with the bound 16640.
\<close>

theorem emitted_length_bound_witness:
  "policyChunks (exWriter 7 2) handshake [1, 2, 3] = [[1, 2, 22, 0], [3, 22, 0]]
   \<and> wireRecords exAead True () 7 [[1, 2, 22, 0], [3, 22, 0]]
       = [[23, 3, 3, 0, 5, 1, 2, 22, 0, 7], [23, 3, 3, 0, 4, 3, 22, 0, 8]]
   \<and> unat (readLength [23, 3, 3, 0, 5, 1, 2, 22, 0, 7]) \<le> 16640
   \<and> unat (readLength [23, 3, 3, 0, 4, 3, 22, 0, 8]) \<le> 16640"
proof -
  have bounded:
    "\<forall>d \<in> set (policyChunks (exWriter 7 2) (type \<lparr>type = handshake, fragment = Some [1, 2, 3]\<rparr>)
                   (case fragment \<lparr>type = handshake, fragment = Some [1, 2, 3]\<rparr> of
                      None \<Rightarrow> [] | Some b \<Rightarrow> b)).
       length d + getCipherOverhead (aead (exWriter 7 2)) \<le> 16640"
    by (simp add: ex_policyChunks) (simp add: ex_defs)
  have recs: "wireRecords exAead True () 7 [[1, 2, 22, 0], [3, 22, 0]]
       = [[23, 3, 3, 0, 5, 1, 2, 22, 0, 7], [23, 3, 3, 0, 4, 3, 22, 0, 8]]"
    by (simp add: recordHeader_def ex_defs)
  from emitted_length_bound [OF ex_write bounded] recs show ?thesis
    by (simp add: ex_policyChunks) (simp add: ex_defs)
qed

text \<open>
  C9 as stated fails: the policy of the example writer returns, for a payload of 65531
  bytes and a maximum record size of 65535, a chunk of 65533 bytes; with the overhead
  of one byte the length field of the one record written is 65534 (bytes \<open>0xFF\<close> and
  \<open>0xFE\<close>), above every value of \<open>kMaxEncryptedRecordSize\<close> below 65534.
\<close>

theorem emitted_length_unbounded_counterexample:
  "write_msg (exWriter 7 65535) \<lparr>type = handshake, fragment = Some (replicate 65531 1)\<rparr> ()
     = (Inr \<lparr>data = [23, 3, 3, 0xFF, 0xFE] @ replicate 65531 1 @ [22, 0, 7],
             contentType = handshake, encryptionLevel = AppTraffic\<rparr>,
        exWriter 8 65535)
   \<and> unat (readLength ([23, 3, 3, 0xFF, 0xFE] @ replicate 65531 1 @ [22, 0, 7])) = 65534"
  by (simp add: write_msg_def write_loop.simps prepareBufferWithPadding_def
        writeEncryptedRecord_def ex_defs wire_defs word_cat_eq)

subsection \<open>Round trip\<close>

text \<open>
  One call of \<open>read\<close> on a record as \<open>write\<close> builds it, under the sequence number it
  was encrypted with: the chunk comes back with its content type, the sequence number
  goes up by one and the bytes behind the record stay.
\<close>

lemma read_written_record:
  assumes dec: "decrypt (aead reader) ct aad (seqNum reader) options = Some d"
      "tryDecrypt (aead reader) ct aad (seqNum reader) options = Some d"
    and aad: "aad = (if useAdditionalData reader then Some (recordHeader n) else None)"
    and len: "length ct = n" "n \<le> kMax" "kMax < 2 ^ 16"
    and ty: "ty = handshake \<or> ty = alert \<or> ty = application_data"
    and d: "d = chunk @ ty # replicate pad 0" "chunk \<noteq> []"
    and seq: "seqNum reader \<noteq> - 1"
  shows "read kMax reader (recordHeader n @ ct @ rest) options
           = (Inr (From \<lparr>type = ty, fragment = Some chunk\<rparr>),
              reader\<lparr>seqNum := seqNum reader + 1, skipFailedDecryption := False\<rparr>, rest)"
proof -
  have "n mod 2 ^ 16 = n"
    using len by simp
  then have n: "unat (readLength (recordHeader n)) = length ct"
    using readLength_recordHeader [of n "[]"] len(1) by (simp add: unat_length16)
  have first: "recordHeader n ! 0 \<noteq> change_cipher_spec"
    by (simp add: recordHeader_def change_cipher_spec_def)
  have ct: "length ct \<le> kMax"
    using len by simp
  have plain: "getDecryptedBuf kMax reader (recordHeader n @ ct @ rest) options
           = (Inr (From d),
              reader\<lparr>seqNum := seqNum reader + 1, skipFailedDecryption := False\<rparr>, rest)"
    using dec seq
    by (simp add: getDecryptedBuf_head [OF length_recordHeader n ct first] aad [symmetric])
  have "ty \<noteq> 0"
    using ty by (auto simp: handshake_def alert_def application_data_def)
  then have "parseAndRemoveContentType d = Some (ty, chunk)"
    unfolding d by (rule parseAndRemoveContentType_padded)
  with plain ty d(2) show ?thesis
    by (simp add: read_def)
qed

text \<open>
  The same for all the records of one run of the loop of \<open>write\<close>, by induction on
  the sequence numbers that are left: as many calls of \<open>read\<close> as chunks were drawn
  return the pieces of the queue in order.
\<close>

lemma read_written_records:
  fixes self :: "'o EncryptedWriteRecordLayer" and reader :: "'o EncryptedReadRecordLayer"
  shows "write_loop self ty options queue outBuf = (Inr out, self') \<Longrightarrow>
    \<forall>d aad s. decrypt (aead self) (encrypt (aead self) d aad s options) aad s options = Some d
               \<and> tryDecrypt (aead self) (encrypt (aead self) d aad s options) aad s options
                   = Some d
               \<and> length (encrypt (aead self) d aad s options)
                   = length d + getCipherOverhead (aead self) \<Longrightarrow>
    \<forall>q. q \<noteq> [] \<longrightarrow>
      (\<exists>n pad. 0 < n
         \<and> bufAndPaddingPolicy self q ty (maxRecord self) (aead self)
             = (take n q @ ty # replicate pad 0, drop n q)
         \<and> length (take n q @ ty # replicate pad 0) + getCipherOverhead (aead self) \<le> kMax) \<Longrightarrow>
    kMax < 2 ^ 16 \<Longrightarrow>
    ty = handshake \<or> ty = alert \<or> ty = application_data \<Longrightarrow>
    aead reader = aead self \<Longrightarrow> useAdditionalData reader = useAdditionalData self \<Longrightarrow>
    seqNum reader = seqNum self \<Longrightarrow>
    \<exists>cs. concat cs = queue \<and> [] \<notin> set cs
      \<and> length cs = length (policyChunks self ty queue)
      \<and> readRecords (length cs) kMax reader
            (concat (wireRecords (aead self) (useAdditionalData self) options (seqNum self)
                       (policyChunks self ty queue)) @ rest) options
          = Some (map (\<lambda>c. \<lparr>type = ty, fragment = Some c\<rparr>) cs,
                  reader\<lparr>seqNum := seqNum self',
                         skipFailedDecryption := (cs = [] \<and> skipFailedDecryption reader)\<rparr>,
                  rest)"
proof (induction "seqNumsLeft (seqNum self)" arbitrary: self queue outBuf reader
         rule: less_induct)
  case less
  note aeadOk = less.prems(2) and policyOk = less.prems(3) and kMax = less.prems(4)
    and ty = less.prems(5) and same = less.prems(6-8)
  from less.prems(1) show ?case
  proof (cases rule: write_loop_cases)
    case finished
    then show ?thesis
      using same by (intro exI [of _ "[]"]) (simp add: policyChunks_stop)
  next
    case exhausted
    then show ?thesis by simp
  next
    case (step d queue')
    let ?self = "self\<lparr>seqNum := seqNum self + 1\<rparr>"
    let ?reader = "reader\<lparr>seqNum := seqNum reader + 1, skipFailedDecryption := False\<rparr>"
    let ?n = "length d + getCipherOverhead (aead self)"
    let ?aad = "if useAdditionalData self then Some (recordHeader ?n) else None"
    let ?ct = "encrypt (aead self) d ?aad (seqNum self) options"
    let ?more = "concat (wireRecords (aead self) (useAdditionalData self) options (seqNum self + 1)
                           (policyChunks ?self ty queue')) @ rest"
    from policyOk step(1,3) obtain n pad where n: "0 < n"
      and d: "d = take n queue @ ty # replicate pad 0" and queue': "queue' = drop n queue"
      and bound: "?n \<le> kMax"
      by (metis prod.inject)
    have chunk: "take n queue \<noteq> []"
      using n step(1) by simp
    have less': "seqNumsLeft (seqNum ?self) < seqNumsLeft (seqNum self)"
      using step(5) by simp
    have "\<exists>cs. concat cs = queue' \<and> [] \<notin> set cs
      \<and> length cs = length (policyChunks ?self ty queue')
      \<and> readRecords (length cs) kMax ?reader
            (concat (wireRecords (aead ?self) (useAdditionalData ?self) options (seqNum ?self)
                       (policyChunks ?self ty queue')) @ rest) options
          = Some (map (\<lambda>c. \<lparr>type = ty, fragment = Some c\<rparr>) cs,
                  ?reader\<lparr>seqNum := seqNum self',
                          skipFailedDecryption := (cs = [] \<and> skipFailedDecryption ?reader)\<rparr>,
                  rest)"
      using aeadOk policyOk kMax ty same
      by (intro less.hyps [OF less' step(6)]) simp_all
    then obtain cs where cs: "concat cs = queue'" "[] \<notin> set cs"
        "length cs = length (policyChunks ?self ty queue')"
      and rest: "readRecords (length cs) kMax ?reader ?more options
          = Some (map (\<lambda>c. \<lparr>type = ty, fragment = Some c\<rparr>) cs,
                  reader\<lparr>seqNum := seqNum self', skipFailedDecryption := False\<rparr>, rest)"
      by auto
    have one: "read kMax reader (recordHeader ?n @ ?ct @ ?more) options
           = (Inr (From \<lparr>type = ty, fragment = Some (take n queue)\<rparr>), ?reader, ?more)"
    proof (rule read_written_record [where d = d and pad = pad])
      show "decrypt (aead reader) ?ct ?aad (seqNum reader) options = Some d"
        and "tryDecrypt (aead reader) ?ct ?aad (seqNum reader) options = Some d"
        using aeadOk same by simp_all
      show "?aad = (if useAdditionalData reader then Some (recordHeader ?n) else None)"
        using same by simp
      show "length ?ct = ?n"
        using aeadOk by simp
      show "seqNum reader \<noteq> - 1"
        using step(2) same by simp
    qed (fact bound kMax ty d chunk)+
    have "readRecords (length (take n queue # cs)) kMax reader
            (concat (wireRecords (aead self) (useAdditionalData self) options (seqNum self)
                       (policyChunks self ty queue)) @ rest) options
          = Some (map (\<lambda>c. \<lparr>type = ty, fragment = Some c\<rparr>) (take n queue # cs),
                  reader\<lparr>seqNum := seqNum self', skipFailedDecryption := False\<rparr>, rest)"
      using one rest by (simp add: step(4))
    then show ?thesis
      using cs chunk queue'
      by (intro exI [of _ "take n queue # cs"]) (simp add: step(4))
  qed
qed

text \<open>
  C1, as amended. The AEAD decrypts what it encrypted under the same sequence number
  and associated data, and its ciphertext is longer than the plaintext by the cipher
  overhead. The policy, on a non-empty queue, takes at least one byte off its front
  and returns those bytes followed by the content type byte and zero padding, of a
  size that with the overhead stays within \<open>kMaxEncryptedRecordSize\<close> (itself below
  \<open>2 ^ 16\<close>). The reader has the writer's AEAD, associated-data mode and sequence number.
  Then for every message \<open>M\<close> of a permitted content type with a non-empty payload
  for which \<open>write\<close> returns: calling \<open>read\<close> once per emitted record on the wire bytes
  (whatever bytes come behind them) returns one message per record, each of the type of
  \<open>M\<close> and with a non-empty fragment, the fragments in order make up the payload of \<open>M\<close>,
  the wire bytes are consumed exactly, and the read sequence number ends where the write
  sequence number does. When the policy emitted the payload as one record, the one
  call of \<open>read\<close> returns \<open>M\<close> itself. For a payload cut into several records a single
  \<open>read\<close> returns the first piece only, and for an empty payload nothing is written:
  see the counterexample below.
\<close>

theorem round_trip:
  fixes self :: "'o EncryptedWriteRecordLayer" and reader :: "'o EncryptedReadRecordLayer"
  assumes written: "write_msg self msg options = (Inr content, self')"
    and payload: "fragment msg = Some payload" "payload \<noteq> []"
    and ty: "type msg = handshake \<or> type msg = alert \<or> type msg = application_data"
    and aeadOk:
      "\<forall>d aad s. decrypt (aead self) (encrypt (aead self) d aad s options) aad s options = Some d
               \<and> tryDecrypt (aead self) (encrypt (aead self) d aad s options) aad s options
                   = Some d
               \<and> length (encrypt (aead self) d aad s options)
                   = length d + getCipherOverhead (aead self)"
    and policyOk:
      "\<forall>q. q \<noteq> [] \<longrightarrow>
         (\<exists>n pad. 0 < n
            \<and> bufAndPaddingPolicy self q (type msg) (maxRecord self) (aead self)
                = (take n q @ type msg # replicate pad 0, drop n q)
            \<and> length (take n q @ type msg # replicate pad 0) + getCipherOverhead (aead self)
                \<le> kMax)"
    and kMax: "kMax < 2 ^ 16"
    and same: "aead reader = aead self" "useAdditionalData reader = useAdditionalData self"
      "seqNum reader = seqNum self"
  shows "\<exists>cs. cs \<noteq> [] \<and> [] \<notin> set cs \<and> concat cs = payload
           \<and> length cs = length (policyChunks self (type msg) payload)
           \<and> readRecords (length cs) kMax reader (data content @ rest) options
               = Some (map (\<lambda>c. \<lparr>type = type msg, fragment = Some c\<rparr>) cs,
                       reader\<lparr>seqNum := seqNum self', skipFailedDecryption := False\<rparr>, rest)
           \<and> (length cs = 1 \<longrightarrow>
                read kMax reader (data content @ rest) options
                  = (Inr (From msg),
                     reader\<lparr>seqNum := seqNum self', skipFailedDecryption := False\<rparr>, rest))"
proof -
  obtain out where run: "write_loop self (type msg) options payload None = (Inr out, self')"
    using written payload
    by (cases "write_loop self (type msg) options payload None")
       (auto simp: write_msg_def split: sum.splits)
  have wire: "data content
                = concat (wireRecords (aead self) (useAdditionalData self) options (seqNum self)
                            (policyChunks self (type msg) payload))"
    using write_msg_data(1) [OF written] payload by simp
  from read_written_records [OF run aeadOk policyOk kMax ty same, of rest]
  obtain cs where cs: "concat cs = payload" "[] \<notin> set cs"
      "length cs = length (policyChunks self (type msg) payload)"
    and all: "readRecords (length cs) kMax reader (data content @ rest) options
          = Some (map (\<lambda>c. \<lparr>type = type msg, fragment = Some c\<rparr>) cs,
                  reader\<lparr>seqNum := seqNum self',
                         skipFailedDecryption := (cs = [] \<and> skipFailedDecryption reader)\<rparr>,
                  rest)"
    unfolding wire by blast
  have ne: "cs \<noteq> []"
    using cs(1) payload(2) by auto
  have single: "read kMax reader (data content @ rest) options
                  = (Inr (From msg),
                     reader\<lparr>seqNum := seqNum self', skipFailedDecryption := False\<rparr>, rest)"
    if "length cs = 1"
  proof -
    from that obtain c where c: "cs = [c]"
      by (cases cs) auto
    with cs(1) have "c = payload" by simp
    with payload(1) have "\<lparr>type = type msg, fragment = Some c\<rparr> = msg" by simp
    with all c show ?thesis
      by (auto split: prod.splits sum.splits ReadResult.splits)
  qed
  from cs all ne single show ?thesis
    by (intro exI [of _ cs]) simp
qed

text \<open>
  The example AEAD and the example policy satisfy the hypotheses.
\<close>

lemma ex_aead_round_trip:
  "\<forall>d aad s. decrypt (aead (exWriter w m)) (encrypt (aead (exWriter w m)) d aad s ()) aad s ()
                 = Some d
             \<and> tryDecrypt (aead (exWriter w m)) (encrypt (aead (exWriter w m)) d aad s ()) aad s ()
                 = Some d
             \<and> length (encrypt (aead (exWriter w m)) d aad s ())
                 = length d + getCipherOverhead (aead (exWriter w m))"
  by (simp add: ex_defs)

lemma ex_policy_chunks:
  assumes "0 < m" and "m + 3 \<le> kMax"
  shows "\<forall>q. q \<noteq> [] \<longrightarrow>
         (\<exists>n pad. 0 < n
            \<and> bufAndPaddingPolicy (exWriter w m) q ty (maxRecord (exWriter w m)) (aead (exWriter w m))
                = (take n q @ ty # replicate pad 0, drop n q)
            \<and> length (take n q @ ty # replicate pad 0) + getCipherOverhead (aead (exWriter w m))
                \<le> kMax)"
proof (intro allI impI)
  fix q :: Buf
  assume "q \<noteq> []"
  show "\<exists>n pad. 0 < n
            \<and> bufAndPaddingPolicy (exWriter w m) q ty (maxRecord (exWriter w m)) (aead (exWriter w m))
                = (take n q @ ty # replicate pad 0, drop n q)
            \<and> length (take n q @ ty # replicate pad 0) + getCipherOverhead (aead (exWriter w m))
                \<le> kMax"
    using assms by (intro exI [of _ m] exI [of _ 1]) (simp add: ex_defs)
qed

text \<open>
  The theorem on the example layers: a three-byte handshake payload in chunks of two
  bytes is read back in two calls.
\<close>

theorem round_trip_witness:
  "\<exists>cs. cs \<noteq> [] \<and> [] \<notin> set cs \<and> concat cs = [1, 2, 3] \<and> length cs = 2
     \<and> readRecords (length cs) 16640 (exReader 7 False)
         ([23, 3, 3, 0, 5, 1, 2, 22, 0, 7, 23, 3, 3, 0, 4, 3, 22, 0, 8] @ []) ()
       = Some (map (\<lambda>c. \<lparr>type = handshake, fragment = Some c\<rparr>) cs, exReader 9 False, [])"
proof -
  have same: "aead (exReader 7 False) = aead (exWriter 7 2)"
    "useAdditionalData (exReader 7 False) = useAdditionalData (exWriter 7 2)"
    "seqNum (exReader 7 False) = seqNum (exWriter 7 2)"
    by (simp_all add: ex_defs)
  have ty: "type \<lparr>type = handshake, fragment = Some [1, 2, 3]\<rparr> = handshake
            \<or> type \<lparr>type = handshake, fragment = Some [1, 2, 3]\<rparr> = alert
            \<or> type \<lparr>type = handshake, fragment = Some [1, 2, 3]\<rparr> = application_data"
    by simp
  have policy: "\<forall>q. q \<noteq> [] \<longrightarrow>
         (\<exists>n pad. 0 < n
            \<and> bufAndPaddingPolicy (exWriter 7 2) q (type \<lparr>type = handshake, fragment = Some [1, 2, 3]\<rparr>)
                  (maxRecord (exWriter 7 2)) (aead (exWriter 7 2))
                = (take n q @ type \<lparr>type = handshake, fragment = Some [1, 2, 3]\<rparr> # replicate pad 0,
                   drop n q)
            \<and> length (take n q @ type \<lparr>type = handshake, fragment = Some [1, 2, 3]\<rparr>
                        # replicate pad 0)
                + getCipherOverhead (aead (exWriter 7 2)) \<le> 16640)"
    by (rule ex_policy_chunks) simp_all
  have after: "(exReader 7 False)\<lparr>seqNum := seqNum (exWriter 9 2), skipFailedDecryption := False\<rparr>
                 = exReader 9 False"
    by (simp add: ex_defs)
  from round_trip [OF ex_write _ _ ty ex_aead_round_trip policy _ same, of "[1, 2, 3]" "[]"]
  show ?thesis
    by (auto simp: ex_policyChunks after)
qed

text \<open>
  C1 as stated fails for the payload length 0 and for payloads of several chunks, with
  matching AEAD and sequence numbers. \<open>write\<close> of an \<open>application_data\<close> message with an
  empty payload returns no bytes, and \<open>read\<close> on no bytes asks for five more instead of
  returning the message. And \<open>read\<close> on the two records written for the payload
  \<open>[1, 2, 3]\<close> returns the fragment \<open>[1, 2]\<close> and leaves the second record in the
  accumulator.
\<close>

theorem round_trip_empty_counterexample:
  "write_msg (exWriter 7 2) \<lparr>type = application_data, fragment = Some []\<rparr> ()
     = (Inr \<lparr>data = [], contentType = application_data, encryptionLevel = AppTraffic\<rparr>,
        exWriter 7 2)
   \<and> read 16640 (exReader 7 False) [] () = (Inr (NoneWithSizeHint 5), exReader 7 False, [])
   \<and> read 16640 (exReader 7 False)
        [23, 3, 3, 0, 5, 1, 2, 22, 0, 7, 23, 3, 3, 0, 4, 3, 22, 0, 8] ()
       = (Inr (From \<lparr>type = handshake, fragment = Some [1, 2]\<rparr>), exReader 8 False,
          [23, 3, 3, 0, 4, 3, 22, 0, 8])"
  by (simp add: write_msg_def write_loop_Nil read_def getDecryptedBuf_short getDecryptedBuf_record
        parseAndRemoveContentType_def ex_defs wire_defs word_cat_eq Let_def)

end
